theory Spec2Isabelle
  imports Complex_Main
begin

section \<open>The object-oriented engine (src/js/hackercraft-engine.js)\<close>

text \<open>
  JavaScript numbers are modelled as \<open>int\<close> where the code only ever stores integers
  (experience points, levels, hotbar indices, milliseconds) and as \<open>real\<close> where it
  stores fractions (volumes, positions, velocities). The experience points can be made
  arbitrarily large through \<open>addXP\<close>, so their arithmetic is rounded as doubles are. Calls to collaborators (the sound
  manager, the toast queue, the DOM, the animation library) are recorded in order in an
  effect list. The page is taken as well formed: the elements that the code dereferences
  without a guard exist.
\<close>

subsection \<open>HackercraftEngine.state\<close>

record engine_state =
  currentScreen :: string
  currentBiome :: string
  health :: int
  maxHealth :: int
  xp :: int
  level :: int
  xpToNext :: int
  unlockedAchievements :: "string list"
  hotbarIndex :: int
  volume :: real
  sfxVolume :: real
  darkTheme :: bool

text \<open>The object literal of the constructor.\<close>

definition initial_state :: engine_state where
  "initial_state =
     \<lparr>currentScreen = ''title'', currentBiome = ''forest'', health = 10, maxHealth = 10,
      xp = 0, level = 1, xpToNext = 100, unlockedAchievements = [], hotbarIndex = 0,
      volume = 1 / 2, sfxVolume = 7 / 10, darkTheme = True\<rparr>"

datatype effect =
    PlaySound string
  | ShowToast string string
  | UpdateHUD
  | HotbarActive int
  | BiomeActive string
  | GsapFromTo string
  | SetTheme string
  | SetVolumeControl real
  | SetSfxControl real
  | SetThemeToggle bool
  | GsapTo string
  | RenderPlayer real real

datatype js_error = RangeError

type_synonym engine = "engine_state \<times> effect list"

definition emit :: "effect \<Rightarrow> engine \<Rightarrow> engine" where
  "emit e s = (fst s, snd s @ [e])"

subsection \<open>Decimal rendering of integers in template strings\<close>

definition digit :: "nat \<Rightarrow> char" where
  "digit d = char_of (d + 48)"

fun string_of_nat :: "nat \<Rightarrow> string" where
  "string_of_nat n =
     (if 10 \<le> n then string_of_nat (n div 10) @ [digit (n mod 10)] else [digit n])"

definition string_of_int :: "int \<Rightarrow> string" where
  "string_of_int i = (if i < 0 then CHR ''-'' # string_of_nat (nat (- i)) else string_of_nat (nat i))"

subsection \<open>Numbers of the engine: rounding to a double\<close>

text \<open>
  The fields \<open>xp\<close>, \<open>level\<close> and \<open>xpToNext\<close> hold JavaScript numbers, that is IEEE 754
  doubles with 53 significant bits. As long as a value is an integer the model keeps it in
  an \<open>int\<close>, and every arithmetic result is rounded as the machine rounds it: to the
  nearest number with 53 significant bits, a tie going to the even one. \<open>bits n\<close> is the
  length of \<open>n\<close> in binary and \<open>dbl\<close> the rounding of a non-negative integer;
  \<open>round_double\<close> extends it by symmetry. A result whose magnitude reaches \<open>2 ^ 1024\<close> is
  \<open>Infinity\<close> in the source; \<open>js_num\<close> gives \<open>None\<close> for it, the model having no such value.
\<close>

function bits :: "int \<Rightarrow> nat" where
  "bits n = (if n \<le> 0 then 0 else Suc (bits (n div 2)))"
  by pat_completeness auto
termination
  by (relation "measure nat") auto

definition dbl :: "int \<Rightarrow> int" where
  "dbl n =
     (let b = bits n in
      if b \<le> 53 then n
      else
        (let s = 2 ^ (b - 53); q = n div s; r = n mod s
         in (if 2 * r < s \<or> (2 * r = s \<and> even q) then q else q + 1) * s))"

definition round_double :: "int \<Rightarrow> int" where
  "round_double i = (if i < 0 then - dbl (- i) else dbl i)"

definition js_num :: "int \<Rightarrow> int option" where
  "js_num i = (let r = round_double i in if \<bar>r\<bar> < 2 ^ 1024 then Some r else None)"

subsection \<open>addXP\<close>

text \<open>
  \<^verbatim>\<open>
  addXP(amount) {
      this.state.xp += amount;
      while (this.state.xp >= this.state.xpToNext) {
          this.state.xp -= this.state.xpToNext;
          this.state.level++;
          this.state.xpToNext = Math.floor(this.state.xpToNext * 1.5);
          this.uiManager.showToast('Level Up!', `Reached level ${this.state.level}`);
          this.soundManager.play('xp_gain');
      }
      this.uiManager.updateHUD();
  }
  \<close>
  The amount is an integer. The product \<open>xpToNext * 1.5\<close> is half of \<open>3 * xpToNext\<close>:
  halving does not change which bits are kept, so the product is the rounding of
  \<open>3 * xpToNext\<close>, halved, and \<open>Math.floor\<close> of it is the integer quotient by 2.
  \<open>exact_threshold\<close> is the same step without rounding, as the specification words it.

  The body of the loop is \<open>levelUp\<close>. The loop itself need not end (it spins when
  \<open>xpToNext\<close> is not positive), so it is a partial function. \<open>None\<close> is "does not return
  with finite numbers": the loop runs for ever, or a field has become \<open>Infinity\<close>.
\<close>

definition next_threshold :: "int \<Rightarrow> int option" where
  "next_threshold t =
     (let p = round_double (3 * t) in if \<bar>p\<bar> < 2 ^ 1025 then Some (p div 2) else None)"

definition exact_threshold :: "int \<Rightarrow> int" where
  "exact_threshold t = \<lfloor>real_of_int t * 1.5\<rfloor>"

definition levelUp :: "engine \<Rightarrow> engine option" where
  "levelUp s =
     (let st = fst s in
      case js_num (xp st - xpToNext st) of
        None \<Rightarrow> None
      | Some x \<Rightarrow>
          (case js_num (level st + 1) of
             None \<Rightarrow> None
           | Some l \<Rightarrow>
               (case next_threshold (xpToNext st) of
                  None \<Rightarrow> None
                | Some t \<Rightarrow>
                    Some (emit (PlaySound ''xp_gain'')
                           (emit (ShowToast ''Level Up!'' (''Reached level '' @ string_of_int l))
                              (st\<lparr>xp := x, level := l, xpToNext := t\<rparr>, snd s))))))"

partial_function (option) addXP_loop :: "engine \<Rightarrow> engine option" where
  "addXP_loop s =
     (if xp (fst s) \<ge> xpToNext (fst s) then Option.bind (levelUp s) addXP_loop else Some s)"

declare addXP_loop.simps [code]

definition addXP :: "int \<Rightarrow> engine \<Rightarrow> engine option" where
  "addXP amount s =
     (case js_num (xp (fst s) + amount) of
        None \<Rightarrow> None
      | Some x \<Rightarrow>
          (case addXP_loop ((fst s)\<lparr>xp := x\<rparr>, snd s) of
             None \<Rightarrow> None
           | Some s' \<Rightarrow> Some (emit UpdateHUD s')))"

text \<open>
  The states on which no step of the loop rounds: the points, the level and three times
  their sum stay below \<open>2 ^ 53\<close>.
\<close>

definition in_exact_range :: "engine_state \<Rightarrow> bool" where
  "in_exact_range st \<longleftrightarrow>
     0 \<le> xp st \<and> 0 < xpToNext st \<and> 0 \<le> level st \<and> 3 * (level st + xp st) < 2 ^ 53"

subsection \<open>switchHotbar and switchBiome\<close>

text \<open>
  \<^verbatim>\<open>
  switchBiome(biome) {
      if (this.state.currentScreen !== 'game') return;
      ... classList ...
      this.state.currentBiome = biome;
      const biomeIndex = ['forest', 'cave', 'desert', 'sky', 'nether'].indexOf(biome);
      this.switchHotbar(biomeIndex);
      this.soundManager.play('page_switch');
      gsap.fromTo(`#${biome}Biome`, ...);
  }
  switchHotbar(index) {
      if (index < 0 || index > 8) return;
      ... classList.toggle('active', i === index) ...
      this.state.hotbarIndex = index;
      const biomes = ['forest', 'cave', 'desert', 'sky', 'nether'];
      if (index < biomes.length) { this.switchBiome(biomes[index]); }
      this.soundManager.play('hover');
  }
  \<close>
  The two methods call each other, and nothing bounds the depth of the calls. The first
  argument of the model is the number of further stack frames that are available: a nested
  call with none left is JavaScript's \<open>RangeError\<close> (maximum call stack size exceeded).
\<close>

definition biomes :: "string list" where
  "biomes = [''forest'', ''cave'', ''desert'', ''sky'', ''nether'']"

fun indexOf :: "string list \<Rightarrow> string \<Rightarrow> int" where
  "indexOf [] b = - 1"
| "indexOf (x # xs) b = (if x = b then 0 else (let i = indexOf xs b in if i < 0 then - 1 else i + 1))"

fun switchHotbar :: "nat \<Rightarrow> int \<Rightarrow> engine \<Rightarrow> js_error + engine"
  and switchBiome :: "nat \<Rightarrow> string \<Rightarrow> engine \<Rightarrow> js_error + engine" where
  "switchHotbar frames index s =
     (if index < 0 \<or> index > 8 then Inr s
      else
        (let s1 = emit (HotbarActive index) s;
             s2 = ((fst s1)\<lparr>hotbarIndex := index\<rparr>, snd s1)
         in if index < int (length biomes) then
              (case frames of
                 0 \<Rightarrow> Inl RangeError
               | Suc n \<Rightarrow>
                   (case switchBiome n (biomes ! nat index) s2 of
                      Inl e \<Rightarrow> Inl e
                    | Inr s3 \<Rightarrow> Inr (emit (PlaySound ''hover'') s3)))
            else Inr (emit (PlaySound ''hover'') s2)))"
| "switchBiome frames biome s =
     (if currentScreen (fst s) \<noteq> ''game'' then Inr s
      else
        (let s1 = emit (BiomeActive biome) s;
             s2 = ((fst s1)\<lparr>currentBiome := biome\<rparr>, snd s1);
             biomeIndex = indexOf biomes biome
         in (case frames of
               0 \<Rightarrow> Inl RangeError
             | Suc n \<Rightarrow>
                 (case switchHotbar n biomeIndex s2 of
                    Inl e \<Rightarrow> Inl e
                  | Inr s3 \<Rightarrow>
                      Inr (emit (GsapFromTo biome) (emit (PlaySound ''page_switch'') s3))))))"

subsection \<open>SaveManager\<close>

text \<open>
  \<^verbatim>\<open>
  save() {
      const saveData = {
          xp: this.engine.state.xp,
          level: this.engine.state.level,
          unlockedAchievements: Array.from(this.engine.state.unlockedAchievements),
          volume: this.engine.state.volume,
          sfxVolume: this.engine.state.sfxVolume,
          darkTheme: this.engine.state.darkTheme,
          lastSave: Date.now()
      };
      try { localStorage.setItem(this.saveKey, JSON.stringify(saveData)); }
      catch (error) { console.warn('Failed to save game:', error); }
  }
  \<close>
  The stored item is modelled by the object that \<open>JSON.parse\<close> gives back from it: for
  finite numbers, booleans, strings and arrays of strings that is the object that was
  stringified. A field of a stored object may be missing (\<open>undefined\<close>), hence the options.
  \<open>setItem\<close> may throw (storage full or disabled): then the item is left as it was.
\<close>

record save_data =
  sd_xp :: "int option"
  sd_level :: "int option"
  sd_unlockedAchievements :: "string list option"
  sd_volume :: "real option"
  sd_sfxVolume :: "real option"
  sd_darkTheme :: "bool option"
  sd_lastSave :: "int option"

definition save :: "bool \<Rightarrow> int \<Rightarrow> engine_state \<Rightarrow> save_data option \<Rightarrow> save_data option" where
  "save writable now st storage =
     (let saveData =
            \<lparr>sd_xp = Some (xp st), sd_level = Some (level st),
             sd_unlockedAchievements = Some (unlockedAchievements st),
             sd_volume = Some (volume st), sd_sfxVolume = Some (sfxVolume st),
             sd_darkTheme = Some (darkTheme st), sd_lastSave = Some now\<rparr>
      in if writable then Some saveData else storage)"

text \<open>
  \<^verbatim>\<open>
  load() {
      try {
          const saved = localStorage.getItem(this.saveKey);
          if (!saved) return;
          const saveData = JSON.parse(saved);
          this.engine.state.xp = saveData.xp || 0;
          this.engine.state.level = saveData.level || 1;
          this.engine.state.unlockedAchievements = new Set(saveData.unlockedAchievements || []);
          this.engine.state.volume = saveData.volume || 0.5;
          this.engine.state.sfxVolume = saveData.sfxVolume || 0.7;
          this.engine.state.darkTheme = saveData.darkTheme !== undefined ? saveData.darkTheme : true;
          ... theme, sliders, labels ...
          this.engine.uiManager.updateHUD();
      } catch (error) { console.warn('Failed to load save:', error); }
  }
  \<close>
  \<open>v || d\<close> on a number or \<open>undefined\<close> is \<open>d\<close> when \<open>v\<close> is \<open>undefined\<close> or zero; on an
  array or \<open>undefined\<close> it is \<open>d\<close> only when \<open>v\<close> is \<open>undefined\<close> (every array is truthy).
  A JavaScript \<open>Set\<close> keeps insertion order and drops repeated elements.
\<close>

definition js_or_num :: "'a::zero option \<Rightarrow> 'a \<Rightarrow> 'a" where
  "js_or_num v d = (case v of None \<Rightarrow> d | Some n \<Rightarrow> if n = 0 then d else n)"

definition js_or_array :: "'a list option \<Rightarrow> 'a list \<Rightarrow> 'a list" where
  "js_or_array v d = (case v of None \<Rightarrow> d | Some a \<Rightarrow> a)"

definition set_add :: "string \<Rightarrow> string list \<Rightarrow> string list" where
  "set_add a xs = (if a \<in> set xs then xs else xs @ [a])"

definition new_Set :: "string list \<Rightarrow> string list" where
  "new_Set xs = foldl (\<lambda>acc a. set_add a acc) [] xs"

definition load :: "save_data option \<Rightarrow> engine \<Rightarrow> engine" where
  "load storage s =
     (case storage of
        None \<Rightarrow> s
      | Some saveData \<Rightarrow>
          (let st = fst s;
               st1 = st\<lparr>xp := js_or_num (sd_xp saveData) 0\<rparr>;
               st2 = st1\<lparr>level := js_or_num (sd_level saveData) 1\<rparr>;
               st3 = st2\<lparr>unlockedAchievements :=
                          new_Set (js_or_array (sd_unlockedAchievements saveData) [])\<rparr>;
               st4 = st3\<lparr>volume := js_or_num (sd_volume saveData) 0.5\<rparr>;
               st5 = st4\<lparr>sfxVolume := js_or_num (sd_sfxVolume saveData) 0.7\<rparr>;
               st6 = st5\<lparr>darkTheme :=
                          (case sd_darkTheme saveData of None \<Rightarrow> True | Some b \<Rightarrow> b)\<rparr>
           in emit UpdateHUD
                (emit (SetThemeToggle (\<not> darkTheme st6))
                   (emit (SetSfxControl (sfxVolume st6 * 100))
                      (emit (SetVolumeControl (volume st6 * 100))
                         (emit (SetTheme (if darkTheme st6 then ''dark'' else ''light''))
                            (st6, snd s)))))))"

subsection \<open>unlockAchievement\<close>

text \<open>
  \<^verbatim>\<open>
  unlockAchievement(title, description) {
      if (this.state.unlockedAchievements.has(title)) return;
      this.state.unlockedAchievements.add(title);
      this.addXP(25);
      this.uiManager.showToast(`Achievement: ${title}`, description);
      this.soundManager.play('achievement');
      this.saveManager.save();
  }
  \<close>
  The engine together with the item in local storage; \<open>writable\<close> and \<open>now\<close> are what
  \<open>save\<close> finds (whether \<open>setItem\<close> succeeds, and the clock).
\<close>

type_synonym eworld = "engine \<times> save_data option"

definition unlockAchievement ::
    "bool \<Rightarrow> int \<Rightarrow> string \<Rightarrow> string \<Rightarrow> eworld \<Rightarrow> eworld option" where
  "unlockAchievement writable now title description w =
     (let s = fst w in
      if title \<in> set (unlockedAchievements (fst s)) then Some w
      else
        (case addXP 25 ((fst s)\<lparr>unlockedAchievements := set_add title (unlockedAchievements (fst s))\<rparr>,
                        snd s) of
           None \<Rightarrow> None
         | Some s1 \<Rightarrow>
             (let s2 = emit (PlaySound ''achievement'')
                         (emit (ShowToast (''Achievement: '' @ title) description) s1)
              in Some (s2, save writable now (fst s2) (snd w)))))"

subsection \<open>The engine's parkour (UIManager.initParkourGame)\<close>

text \<open>
  \<^verbatim>\<open>
  let playerX = 70; let playerY = 60; let isJumping = false; let velocityY = 0;
  const gravity = 0.5; const jumpStrength = -12;
  const keys = {};
  function updateParkour() {
      if (keys['a'] || keys['arrowleft']) playerX -= 3;
      if (keys['d'] || keys['arrowright']) playerX += 3;
      velocityY += gravity;
      playerY += velocityY;
      let onGround = false;
      platforms.forEach(platform => {
          const platX = parseInt(platform.style.left || '0');
          const platY = parseInt(platform.style.bottom || '0');
          const platWidth = parseInt(platform.style.width || '0');
          if (playerX + 30 > platX && playerX < platX + platWidth &&
              playerY + 50 > platY && playerY < platY + 40) {
              playerY = platY - 50; velocityY = 0; onGround = true;
              if (platform.classList.contains('end')) { completeParkour(); }
          }
      });
      if (playerY >= 150) { playerY = 150; velocityY = 0; onGround = true; }
      isJumping = !onGround;
      player.style.left = `${playerX}px`; player.style.bottom = `${playerY}px`;
      playerX = Math.max(0, Math.min(playerX, 470));
      requestAnimationFrame(updateParkour);
  }
  function completeParkour() {
      if (this.parkourCompleted) return;
      this.parkourCompleted = true;
      this.engine.addXP(50);
      this.engine.unlockAchievement('Parkour Master', 'Completed the skills course!');
      gsap.to(player, { ... });
  }
  \<close>
  A platform of the page is what the loop reads of it: the pixel lengths that \<open>parseInt\<close>
  finds in its style and whether it carries the class \<open>end\<close>.
\<close>

record eparkour =
  playerX :: real
  playerY :: real
  isJumping :: bool
  velocityY :: real
  ekeys :: "string \<Rightarrow> bool"
  parkourCompleted :: bool

record eplatform =
  platX :: int
  platY :: int
  platWidth :: int
  is_end :: bool

definition eparkour_init :: eparkour where
  "eparkour_init =
     \<lparr>playerX = 70, playerY = 60, isJumping = False, velocityY = 0, ekeys = (\<lambda>k. False),
      parkourCompleted = False\<rparr>"

definition completeParkour :: "bool \<Rightarrow> int \<Rightarrow> eparkour \<times> eworld \<Rightarrow> (eparkour \<times> eworld) option" where
  "completeParkour writable now s =
     (let pk = fst s; w = snd s in
      if parkourCompleted pk then Some s
      else
        (case addXP 50 (fst w) of
           None \<Rightarrow> None
         | Some e1 \<Rightarrow>
             (case unlockAchievement writable now ''Parkour Master''
                     ''Completed the skills course!'' (e1, snd w) of
                None \<Rightarrow> None
              | Some w2 \<Rightarrow>
                  Some (pk\<lparr>parkourCompleted := True\<rparr>,
                        (emit (GsapTo ''player'') (fst w2), snd w2)))))"

text \<open>One round of the \<open>forEach\<close>; the flag beside the body is the local \<open>onGround\<close>.\<close>

definition e_collide ::
    "bool \<Rightarrow> int \<Rightarrow> (eparkour \<times> bool) \<times> eworld \<Rightarrow> eplatform \<Rightarrow> ((eparkour \<times> bool) \<times> eworld) option" where
  "e_collide writable now s pf =
     (let pk = fst (fst s) in
      if playerX pk + 30 > real_of_int (platX pf)
         \<and> playerX pk < real_of_int (platX pf + platWidth pf)
         \<and> playerY pk + 50 > real_of_int (platY pf)
         \<and> playerY pk < real_of_int (platY pf + 40)
      then
        (let pk1 = pk\<lparr>playerY := real_of_int (platY pf - 50), velocityY := 0\<rparr> in
         if is_end pf then
           (case completeParkour writable now (pk1, snd s) of
              None \<Rightarrow> None
            | Some r \<Rightarrow> Some ((fst r, True), snd r))
         else Some ((pk1, True), snd s))
      else Some s)"

fun e_collision_pass ::
    "bool \<Rightarrow> int \<Rightarrow> eplatform list \<Rightarrow> (eparkour \<times> bool) \<times> eworld \<Rightarrow> ((eparkour \<times> bool) \<times> eworld) option" where
  "e_collision_pass writable now [] s = Some s"
| "e_collision_pass writable now (pf # pfs) s =
     (case e_collide writable now s pf of
        None \<Rightarrow> None
      | Some s' \<Rightarrow> e_collision_pass writable now pfs s')"

definition updateParkour ::
    "bool \<Rightarrow> int \<Rightarrow> eplatform list \<Rightarrow> eparkour \<times> eworld \<Rightarrow> (eparkour \<times> eworld) option" where
  "updateParkour writable now pfs s =
     (let pk = fst s;
          pk1 = (if ekeys pk ''a'' \<or> ekeys pk ''arrowleft'' then pk\<lparr>playerX := playerX pk - 3\<rparr> else pk);
          pk2 = (if ekeys pk1 ''d'' \<or> ekeys pk1 ''arrowright'' then pk1\<lparr>playerX := playerX pk1 + 3\<rparr> else pk1);
          pk3 = pk2\<lparr>velocityY := velocityY pk2 + 0.5\<rparr>;
          pk4 = pk3\<lparr>playerY := playerY pk3 + velocityY pk3\<rparr>
      in case e_collision_pass writable now pfs ((pk4, False), snd s) of
           None \<Rightarrow> None
         | Some r \<Rightarrow>
             (let pk5 = fst (fst r); g5 = snd (fst r);
                  r6 = (if playerY pk5 \<ge> 150 then (pk5\<lparr>playerY := 150, velocityY := 0\<rparr>, True)
                        else (pk5, g5));
                  pk7 = (fst r6)\<lparr>isJumping := \<not> snd r6\<rparr>;
                  e8 = emit (RenderPlayer (playerX pk7) (playerY pk7)) (fst (snd r));
                  pk9 = pk7\<lparr>playerX := max 0 (min (playerX pk7) 470)\<rparr>
              in Some (pk9, (e8, snd (snd r)))))"

subsection \<open>UIManager: the toast queue\<close>

text \<open>
  \<^verbatim>\<open>
  showToast(title, description) {
      const toast = { title, description, id: Date.now() };
      this.toastQueue.push(toast);
      this.processToastQueue();
  }
  processToastQueue() {
      if (this.isShowingToast || this.toastQueue.length === 0) return;
      this.isShowingToast = true;
      const toast = this.toastQueue.shift();
      const container = document.getElementById('toastContainer');
      const toastElement = document.createElement('div');
      toastElement.className = 'toast showing';
      ...
      container.appendChild(toastElement);
      gsap.fromTo(toastElement, { x: 300, opacity: 0 },
          { x: 0, opacity: 1, duration: 0.5, ease: 'back.out',
            onComplete: () => {
                setTimeout(() => {
                    toastElement.classList.remove('showing');
                    toastElement.classList.add('hiding');
                    setTimeout(() => {
                        container.removeChild(toastElement);
                        this.isShowingToast = false;
                        this.processToastQueue();
                    }, 500);
                }, 3000);
            } });
  }
  \<close>
  Time is the clock of the page in milliseconds. A callback that was armed (by
  \<open>setTimeout\<close>, or as the \<open>onComplete\<close> of the entrance animation, which the animation
  library calls when the half second of the animation is over) waits in \<open>pending\<close> with
  the time at which it is due, and runs when the clock reaches that time. The three
  closures are told apart by a constructor and by the element they close over; an element
  is known by the number of elements created before it.

  \<open>pending\<close>, \<open>clock\<close> and \<open>created\<close> are the page's side of the matter: its timers, its
  clock and the identity of its nodes. Two more fields are not in the source and are
  never read by the model of it: \<open>requested\<close>
  lists every toast ever pushed, and \<open>history\<close> every change of state of an element with
  its time. The claims about order and timing are stated on them.
\<close>

record toast =
  toast_title :: string
  toast_description :: string
  toast_id :: nat

datatype css_class = Showing | Hiding

record toast_element =
  el_key :: nat
  el_toast :: toast
  el_class :: css_class

datatype callback = OnComplete nat | HideToast nat | RemoveToast nat

datatype transition = Appeared toast | Completed | Dismissed | Removed

record ui_manager =
  toastQueue :: "toast list"
  isShowingToast :: bool
  container :: "toast_element list"
  pending :: "(nat \<times> callback) list"
  clock :: nat
  created :: nat
  requested :: "toast list"
  history :: "(nat \<times> nat \<times> transition) list"

definition ui_init :: ui_manager where
  "ui_init =
     \<lparr>toastQueue = [], isShowingToast = False, container = [], pending = [], clock = 0,
      created = 0, requested = [], history = []\<rparr>"

definition arm :: "nat \<Rightarrow> callback \<Rightarrow> ui_manager \<Rightarrow> ui_manager" where
  "arm delay cb u = u\<lparr>pending := pending u @ [(clock u + delay, cb)]\<rparr>"

definition chronicle :: "nat \<Rightarrow> transition \<Rightarrow> ui_manager \<Rightarrow> ui_manager" where
  "chronicle k tr u = u\<lparr>history := history u @ [(clock u, k, tr)]\<rparr>"

definition processToastQueue :: "ui_manager \<Rightarrow> ui_manager" where
  "processToastQueue u =
     (case toastQueue u of
        [] \<Rightarrow> u
      | toast # rest \<Rightarrow>
          if isShowingToast u then u
          else
            (let u1 = u\<lparr>isShowingToast := True\<rparr>;
                 u2 = u1\<lparr>toastQueue := rest\<rparr>;
                 k = created u2;
                 toastElement = \<lparr>el_key = k, el_toast = toast, el_class = Showing\<rparr>;
                 u3 = u2\<lparr>container := container u2 @ [toastElement], created := Suc k\<rparr>
             in arm 500 (OnComplete k) (chronicle k (Appeared toast) u3)))"

definition showToast :: "string \<Rightarrow> string \<Rightarrow> ui_manager \<Rightarrow> ui_manager" where
  "showToast ttl descr u =
     (let toast = \<lparr>toast_title = ttl, toast_description = descr, toast_id = clock u\<rparr>
      in processToastQueue
           (u\<lparr>toastQueue := toastQueue u @ [toast], requested := requested u @ [toast]\<rparr>))"

fun fire :: "callback \<Rightarrow> ui_manager \<Rightarrow> ui_manager" where
  "fire (OnComplete k) u = arm 3000 (HideToast k) (chronicle k Completed u)"
| "fire (HideToast k) u =
     arm 500 (RemoveToast k)
       (chronicle k Dismissed
          (u\<lparr>container := map (\<lambda>e. if el_key e = k then e\<lparr>el_class := Hiding\<rparr> else e)
                              (container u)\<rparr>))"
| "fire (RemoveToast k) u =
     processToastQueue
       ((chronicle k Removed
           (u\<lparr>container := filter (\<lambda>e. el_key e \<noteq> k) (container u)\<rparr>))
        \<lparr>isShowingToast := False\<rparr>)"

text \<open>One millisecond passes, and the callbacks that are due run in the order they were armed.\<close>

definition tick :: "ui_manager \<Rightarrow> ui_manager" where
  "tick u =
     (let u1 = u\<lparr>clock := Suc (clock u)\<rparr>;
          due = filter (\<lambda>p. fst p \<le> clock u1) (pending u1);
          u2 = u1\<lparr>pending := filter (\<lambda>p. \<not> fst p \<le> clock u1) (pending u1)\<rparr>
      in foldl (\<lambda>v p. fire (snd p) v) u2 due)"

datatype ui_event = Call string string | Tick | Wait nat

fun occur :: "ui_manager \<Rightarrow> ui_event \<Rightarrow> ui_manager" where
  "occur u (Call ttl descr) = showToast ttl descr u"
| "occur u Tick = tick u"
| "occur u (Wait n) = (tick ^^ n) u"

definition run :: "ui_event list \<Rightarrow> ui_manager \<Rightarrow> ui_manager" where
  "run evs u = foldl occur u evs"

fun appeared :: "(nat \<times> nat \<times> transition) list \<Rightarrow> toast list" where
  "appeared [] = []"
| "appeared ((t, k, Appeared x) # h) = x # appeared h"
| "appeared ((t, k, tr) # h) = appeared h"

subsection \<open>UIManager: the states of the toast queue\<close>

text \<open>
  The four situations the queue can be in: nothing shown and nothing waiting; an element
  entering (its entrance animation runs); an element displayed (its timer of 3000 ms
  runs); an element dismissing (its timer of 500 ms runs). \<open>timed\<close> relates the entries of
  the history to each other and to the callback that is armed, and \<open>fifo\<close> says that the
  toasts that have appeared, followed by those waiting, are the toasts requested, in order.
\<close>

definition idle :: "ui_manager \<Rightarrow> bool" where
  "idle u \<longleftrightarrow>
     pending u = [] \<and> \<not> isShowingToast u \<and> container u = [] \<and> toastQueue u = []
     \<and> (created u = 0 \<or> (\<exists>t. t \<le> clock u \<and> (t, created u - 1, Removed) \<in> set (history u)))"

definition entering :: "ui_manager \<Rightarrow> bool" where
  "entering u \<longleftrightarrow>
     (\<exists>k t x. created u = Suc k \<and> isShowingToast u
        \<and> container u = [\<lparr>el_key = k, el_toast = x, el_class = Showing\<rparr>]
        \<and> pending u = [(t + 500, OnComplete k)] \<and> clock u < t + 500
        \<and> (t, k, Appeared x) \<in> set (history u))"

definition displayed :: "ui_manager \<Rightarrow> bool" where
  "displayed u \<longleftrightarrow>
     (\<exists>k t x. created u = Suc k \<and> isShowingToast u
        \<and> container u = [\<lparr>el_key = k, el_toast = x, el_class = Showing\<rparr>]
        \<and> pending u = [(t + 3000, HideToast k)] \<and> clock u < t + 3000
        \<and> (t, k, Completed) \<in> set (history u))"

definition dismissing :: "ui_manager \<Rightarrow> bool" where
  "dismissing u \<longleftrightarrow>
     (\<exists>k t x. created u = Suc k \<and> isShowingToast u
        \<and> container u = [\<lparr>el_key = k, el_toast = x, el_class = Hiding\<rparr>]
        \<and> pending u = [(t + 500, RemoveToast k)] \<and> clock u < t + 500
        \<and> (t, k, Dismissed) \<in> set (history u))"

definition phase :: "ui_manager \<Rightarrow> bool" where
  "phase u \<longleftrightarrow> idle u \<or> entering u \<or> displayed u \<or> dismissing u"

definition timed :: "(nat \<times> callback) list \<Rightarrow> (nat \<times> nat \<times> transition) list \<Rightarrow> bool" where
  "timed pend h \<longleftrightarrow>
     (\<forall>t k x. (t, k, Appeared x) \<in> set h \<longrightarrow>
        (t + 500, k, Completed) \<in> set h \<or> pend = [(t + 500, OnComplete k)])
   \<and> (\<forall>t k. (t, k, Completed) \<in> set h \<longrightarrow>
        (\<exists>t0 x. t = t0 + 500 \<and> (t0, k, Appeared x) \<in> set h)
        \<and> ((t + 3000, k, Dismissed) \<in> set h \<or> pend = [(t + 3000, HideToast k)]))
   \<and> (\<forall>t k. (t, k, Dismissed) \<in> set h \<longrightarrow>
        (\<exists>t0. t = t0 + 3000 \<and> (t0, k, Completed) \<in> set h)
        \<and> ((t + 500, k, Removed) \<in> set h \<or> pend = [(t + 500, RemoveToast k)]))
   \<and> (\<forall>t k. (t, k, Removed) \<in> set h \<longrightarrow>
        (\<exists>t0. t = t0 + 500 \<and> (t0, k, Dismissed) \<in> set h))
   \<and> (\<forall>t k x. (t, Suc k, Appeared x) \<in> set h \<longrightarrow>
        (\<exists>t0 y. (t0, k, Appeared y) \<in> set h \<and> t0 + 4000 \<le> t))"

definition fifo :: "ui_manager \<Rightarrow> bool" where
  "fifo u \<longleftrightarrow> appeared (history u) @ toastQueue u = requested u"

definition toast_inv :: "ui_manager \<Rightarrow> bool" where
  "toast_inv u \<longleftrightarrow> phase u \<and> timed (pending u) (history u) \<and> fifo u"

text \<open>
  The same situations told by the time \<open>a\<close> at which the element on the stage appeared:
  it is in the container with class \<open>showing\<close> until \<open>a + 3500\<close> (its entrance until
  \<open>a + 500\<close>, then its display timer), with class \<open>hiding\<close> until \<open>a + 4000\<close>, and every
  element before it appeared at least 4000 ms before now.
\<close>

definition on_stage :: "ui_manager \<Rightarrow> nat \<Rightarrow> nat \<Rightarrow> toast \<Rightarrow> css_class \<Rightarrow> bool" where
  "on_stage u a k x c \<longleftrightarrow>
     created u = Suc k \<and> isShowingToast u
     \<and> container u = [\<lparr>el_key = k, el_toast = x, el_class = c\<rparr>]
     \<and> (a, k, Appeared x) \<in> set (history u)
     \<and> (\<forall>t y. (t, k, Appeared y) \<in> set (history u) \<longrightarrow> t = a \<and> y = x)"

definition off_stage :: "ui_manager \<Rightarrow> bool" where
  "off_stage u \<longleftrightarrow>
     pending u = [] \<and> container u = [] \<and> \<not> isShowingToast u
     \<and> (\<forall>t k x. (t, k, Appeared x) \<in> set (history u) \<longrightarrow> k < created u \<and> t + 4000 \<le> clock u)"

definition staged :: "ui_manager \<Rightarrow> bool" where
  "staged u \<longleftrightarrow>
     (\<forall>t k x. (t, k, Appeared x) \<in> set (history u) \<longrightarrow>
        k < created u \<and> (Suc k < created u \<longrightarrow> t + 4000 \<le> clock u))
     \<and> (off_stage u
        \<or> (\<exists>a k x. on_stage u a k x Showing \<and> pending u = [(a + 500, OnComplete k)]
              \<and> a \<le> clock u \<and> clock u < a + 500)
        \<or> (\<exists>a k x. on_stage u a k x Showing \<and> pending u = [(a + 3500, HideToast k)]
              \<and> a + 500 \<le> clock u \<and> clock u < a + 3500)
        \<or> (\<exists>a k x. on_stage u a k x Hiding \<and> pending u = [(a + 4000, RemoveToast k)]
              \<and> a + 3500 \<le> clock u \<and> clock u < a + 4000))"

text \<open>Two requests at time 0, and the four seconds that follow.\<close>

definition two_toasts :: "ui_event list" where
  "two_toasts = [Call ''A'' ''a'', Call ''B'' ''b'', Wait 499, Tick, Wait 2999, Tick, Wait 499, Tick]"

text \<open>One request at time 0, then 3000, 3499 and 3500 ms.\<close>

definition one_toast :: "ui_event list" where
  "one_toast = [Call ''A'' ''a'']"

definition one_toast_3000 :: "ui_event list" where
  "one_toast_3000 = [Call ''A'' ''a'', Wait 499, Tick, Wait 2500]"

definition one_toast_3499 :: "ui_event list" where
  "one_toast_3499 = [Call ''A'' ''a'', Wait 499, Tick, Wait 2999]"

definition one_toast_3500 :: "ui_event list" where
  "one_toast_3500 = [Call ''A'' ''a'', Wait 499, Tick, Wait 2999, Tick]"

subsection \<open>The module's toast stack (setupToastStack)\<close>

text \<open>
  \<^verbatim>\<open>
  window.createToast = function(title, msg, opts = {}) {
    const node = document.createElement('div');
    node.className = 'toast';
    ...
    wrap.prepend(node);
    if (hasG) {
      gsap.fromTo(node, {y:-20, autoAlpha:0, scale:0.98}, {..., duration:0.45, ...});
      gsap.to(node, {delay:(opts.duration||4.2)/1000, x:40, autoAlpha:0, duration:0.5,
                     ease:'power1.in', onComplete: ()=> node.remove()});
    } else {
      setTimeout(()=> node.remove(), opts.duration || 4200);
    }
    SoundManager.play('achievement');
  };
  \<close>
  \<open>wrap\<close> lists the children of the element \<open>toastWrap\<close>, the first on top. With the
  animation library the node goes after the delay and the half second of the exit
  animation, without it after the duration; times are in milliseconds.
\<close>

record toast_node =
  node_key :: nat
  node_title :: string
  node_msg :: string

record toast_stack =
  wrap :: "toast_node list"
  removals :: "(real \<times> nat) list"
  stack_clock :: real
  nodes_created :: nat
  stack_sounds :: "string list"

definition stack_init :: toast_stack where
  "stack_init = \<lparr>wrap = [], removals = [], stack_clock = 0, nodes_created = 0, stack_sounds = []\<rparr>"

definition createToast :: "bool \<Rightarrow> string \<Rightarrow> string \<Rightarrow> real option \<Rightarrow> toast_stack \<Rightarrow> toast_stack" where
  "createToast hasG ttl msg duration s =
     (let node = \<lparr>node_key = nodes_created s, node_title = ttl, node_msg = msg\<rparr>;
          s1 = s\<lparr>wrap := node # wrap s, nodes_created := Suc (nodes_created s)\<rparr>;
          due = (if hasG then stack_clock s1 + js_or_num duration 4.2 + 500
                 else stack_clock s1 + js_or_num duration 4200);
          s2 = s1\<lparr>removals := removals s1 @ [(due, node_key node)]\<rparr>
      in s2\<lparr>stack_sounds := stack_sounds s2 @ [''achievement'']\<rparr>)"

text \<open>Time moves on to \<open>t\<close>: the nodes whose removal is due by then are gone.\<close>

definition elapse :: "real \<Rightarrow> toast_stack \<Rightarrow> toast_stack" where
  "elapse t s =
     s\<lparr>stack_clock := max t (stack_clock s),
       wrap := filter (\<lambda>n. \<not> list_ex (\<lambda>p. snd p = node_key n \<and> fst p \<le> t) (removals s)) (wrap s),
       removals := filter (\<lambda>p. \<not> fst p \<le> t) (removals s)\<rparr>"

section \<open>The closure-based module (src/unnamed/part_000)\<close>

subsection \<open>Module state, notifications and sounds\<close>

text \<open>
  The \<open>state\<close> object of the module, as far as the parkour loop and the achievements
  read and write it (\<open>xp\<close> is \<open>m_xp\<close> here, the name being taken by the engine).
  \<open>keys\<close> maps a lower-case key name to whether it is held; a name never written is
  \<open>undefined\<close>, which the code only tests for truth. \<open>trace\<close> lists, in order, the calls
  made to the notification sink (\<open>window.createToast\<close> or the fallback the caller
  supplies), to \<open>SoundManager.play\<close> and to the DOM.
\<close>

datatype m_effect =
    Notify string string
  | Play string
  | Render int int
  | XpFill int

record module_state =
  soundOn :: bool
  gameActive :: bool
  achievements :: "string list"
  m_xp :: int
  keys :: "string \<Rightarrow> bool"
  trace :: "m_effect list"

definition module_init :: module_state where
  "module_init =
     \<lparr>soundOn = True, gameActive = False, achievements = [], m_xp = 60,
      keys = (\<lambda>k. False), trace = []\<rparr>"

definition tell :: "m_effect \<Rightarrow> module_state \<Rightarrow> module_state" where
  "tell e m = m\<lparr>trace := trace m @ [e]\<rparr>"

text \<open>
  \<^verbatim>\<open>
  function awardAchievement(id, title, msg) {
    if (state.achievements.has(id)) return;
    state.achievements.add(id);
    (window.createToast || ((t,m)=>{ ... }))(title, msg, { duration: 4200 });
    log('Achievement unlocked', id);
    SoundManager.play('achievement');
  }
  \<close>
\<close>

definition awardAchievement :: "string \<Rightarrow> string \<Rightarrow> string \<Rightarrow> module_state \<Rightarrow> module_state" where
  "awardAchievement ident title msg m =
     (if ident \<in> set (achievements m) then m
      else tell (Play ''achievement'')
             (tell (Notify title msg) (m\<lparr>achievements := achievements m @ [ident]\<rparr>)))"

subsection \<open>Parkour: bodies, platforms, the instance\<close>

record player =
  p_x :: real
  p_y :: real
  p_vx :: real
  p_vy :: real
  p_w :: real
  p_h :: real
  onGround :: bool
  speed :: real
  jumpStrength :: real

record platform =
  pl_x :: real
  pl_y :: real
  pl_w :: real
  pl_h :: real

record arena =
  clientWidth :: real
  clientHeight :: real

text \<open>
  What \<open>setupParkour\<close> closes over: the body, the level, the time of the last tick (\<open>last\<close> in the source),
  the flag \<open>running\<close>, whether a \<open>requestAnimationFrame(step)\<close> callback is pending and
  whether \<open>keyHandler\<close> is registered on the window.
\<close>

record parkour =
  player :: player
  platforms :: "platform list"
  last_tick :: real
  running :: bool
  frame_requested :: bool
  listening :: bool

text \<open>
  \<^verbatim>\<open>
  const h = arena.clientHeight || 320;
  const platforms = [
    { x: 10, y: h - 28, w: 120, h: 20 }, { x: 170, y: h - 90, w: 90, h: 18 },
    { x: 300, y: h - 140, w: 140, h: 20 }, { x: 500, y: h - 200, w: 100, h: 18 },
    { x: 660, y: h - 260, w: 80, h: 18 } ];
  const player = { x: 20, y: h - 48, vx: 0, vy: 0, w: 20, h: 20,
                   onGround: false, speed: 2.9, jumpStrength: 7.2 };
  window.addEventListener('keydown', keyHandler);
  window.addEventListener('keyup', keyHandler);
  let last = performance.now();
  let running = true;
  ...
  requestAnimationFrame(step);
  return { destroy() { running = false;
                       window.removeEventListener('keydown', keyHandler);
                       window.removeEventListener('keyup', keyHandler); } };
  \<close>
\<close>

definition layout :: "real \<Rightarrow> platform list" where
  "layout h =
     [\<lparr>pl_x = 10, pl_y = h - 28, pl_w = 120, pl_h = 20\<rparr>,
      \<lparr>pl_x = 170, pl_y = h - 90, pl_w = 90, pl_h = 18\<rparr>,
      \<lparr>pl_x = 300, pl_y = h - 140, pl_w = 140, pl_h = 20\<rparr>,
      \<lparr>pl_x = 500, pl_y = h - 200, pl_w = 100, pl_h = 18\<rparr>,
      \<lparr>pl_x = 660, pl_y = h - 260, pl_w = 80, pl_h = 18\<rparr>]"

definition spawn :: "real \<Rightarrow> player" where
  "spawn h =
     \<lparr>p_x = 20, p_y = h - 48, p_vx = 0, p_vy = 0, p_w = 20, p_h = 20,
      onGround = False, speed = 2.9, jumpStrength = 7.2\<rparr>"

definition setupParkour :: "real \<Rightarrow> arena option \<Rightarrow> parkour option" where
  "setupParkour now ar =
     (case ar of
        None \<Rightarrow> None
      | Some a \<Rightarrow>
          (let h = (if clientHeight a = 0 then 320 else clientHeight a)
           in Some \<lparr>player = spawn h, platforms = layout h, last_tick = now, running = True,
                     frame_requested = True, listening = True\<rparr>))"

definition destroy :: "parkour \<Rightarrow> parkour" where
  "destroy pk = pk\<lparr>running := False, listening := False\<rparr>"

text \<open>
  \<open>keyHandler\<close>, with the key name already in lower case: it runs only while it is
  registered.
\<close>

definition keyHandler :: "bool \<Rightarrow> string \<Rightarrow> module_state \<times> parkour \<Rightarrow> module_state \<times> parkour" where
  "keyHandler down k s =
     (if listening (snd s) then ((fst s)\<lparr>keys := (keys (fst s))(k := down)\<rparr>, snd s) else s)"

subsection \<open>Parkour: one tick\<close>

text \<open>
  \<^verbatim>\<open>
  function step(now) {
    const dt = Math.min(32, now - last) / 16.666;
    last = now;
    const left = state.keys['a'] || state.keys['arrowleft'];
    const right = state.keys['d'] || state.keys['arrowright'];
    const up = state.keys['w'] || state.keys['arrowup'] || state.keys[' '];
    if (left) player.vx = -player.speed;
    else if (right) player.vx = player.speed;
    else player.vx = 0;
    player.vy += 0.45 * dt;
    if (up && player.onGround) {
      player.vy = -player.jumpStrength; player.onGround = false; SoundManager.play('click');
    }
    player.x += player.vx * dt * 6;
    player.y += player.vy * dt;
  \<close>
\<close>

definition elapsed :: "real \<Rightarrow> real \<Rightarrow> real" where
  "elapsed now lst = min 32 (now - lst) / 16.666"

definition left_held :: "module_state \<Rightarrow> bool" where
  "left_held m = (keys m ''a'' \<or> keys m ''arrowleft'')"

definition right_held :: "module_state \<Rightarrow> bool" where
  "right_held m = (keys m ''d'' \<or> keys m ''arrowright'')"

definition up_held :: "module_state \<Rightarrow> bool" where
  "up_held m = (keys m ''w'' \<or> keys m ''arrowup'' \<or> keys m '' '')"

definition move :: "real \<Rightarrow> module_state \<times> player \<Rightarrow> module_state \<times> player" where
  "move dt s =
     (let m = fst s; p = snd s;
          p1 = p\<lparr>p_vx := (if left_held m then - speed p else if right_held m then speed p else 0)\<rparr>;
          p2 = p1\<lparr>p_vy := p_vy p1 + 0.45 * dt\<rparr>;
          s3 = (if up_held m \<and> onGround p2
                then (tell (Play ''click'') m, p2\<lparr>p_vy := - jumpStrength p2, onGround := False\<rparr>)
                else (m, p2));
          p3 = snd s3;
          p4 = p3\<lparr>p_x := p_x p3 + p_vx p3 * dt * 6\<rparr>;
          p5 = p4\<lparr>p_y := p_y p4 + p_vy p4 * dt\<rparr>
      in (fst s3, p5))"

text \<open>
  \<^verbatim>\<open>
    player.onGround = false;
    platforms.forEach(pl => {
      const px1 = pl.x, px2 = pl.x + pl.w;
      const py = pl.y;
      const playerBottom = player.y + player.h;
      if (player.x + player.w > px1 && player.x < px2) {
        if (playerBottom >= py && playerBottom < py + 16 && player.vy >= 0) {
          player.y = py - player.h; player.vy = 0; player.onGround = true;
        }
      }
    });
  \<close>
\<close>

definition collide :: "player \<Rightarrow> platform \<Rightarrow> player" where
  "collide p pl =
     (let px1 = pl_x pl; px2 = pl_x pl + pl_w pl; py = pl_y pl;
          playerBottom = p_y p + p_h p
      in if p_x p + p_w p > px1 \<and> p_x p < px2 then
           (if playerBottom \<ge> py \<and> playerBottom < py + 16 \<and> p_vy p \<ge> 0
            then p\<lparr>p_y := py - p_h p, p_vy := 0, onGround := True\<rparr>
            else p)
         else p)"

definition collision_pass :: "platform list \<Rightarrow> player \<Rightarrow> player" where
  "collision_pass pls p = foldl collide (p\<lparr>onGround := False\<rparr>) pls"

text \<open>
  \<^verbatim>\<open>
    if (player.x < 0) player.x = 0;
    if (player.x + player.w > (arena.clientWidth - 6)) player.x = arena.clientWidth - player.w - 6;
    if (player.y > arena.clientHeight) {
      player.x = 20; player.y = arena.clientHeight - 48; player.vy = 0;
      (window.createToast || ((t,m)=>{}))('Parkour', 'You fell. Resetting run...');
      SoundManager.play('page');
    }
    playerEl.style.left = Math.round(player.x) + 'px';
    playerEl.style.top = Math.round(player.y) + 'px';
  \<close>
\<close>

definition clamp_to_arena :: "arena \<Rightarrow> player \<Rightarrow> player" where
  "clamp_to_arena a p =
     (let p1 = (if p_x p < 0 then p\<lparr>p_x := 0\<rparr> else p)
      in if p_x p1 + p_w p1 > clientWidth a - 6
         then p1\<lparr>p_x := clientWidth a - p_w p1 - 6\<rparr> else p1)"

definition fall_check :: "arena \<Rightarrow> module_state \<times> player \<Rightarrow> module_state \<times> player" where
  "fall_check a s =
     (let m = fst s; p = snd s
      in if p_y p > clientHeight a
         then (tell (Play ''page'') (tell (Notify ''Parkour'' ''You fell. Resetting run...'') m),
               p\<lparr>p_x := 20, p_y := clientHeight a - 48, p_vy := 0\<rparr>)
         else s)"

definition js_round :: "real \<Rightarrow> int" where
  "js_round r = \<lfloor>r + 1 / 2\<rfloor>"

text \<open>
  \<^verbatim>\<open>
    if (player.x > (arena.clientWidth - 120)) {
      (window.createToast || ((t,m)=>{}))('Parkour Complete',
          'You reached the end (em dash) +15 XP', {duration:3600});
      SoundManager.play('xp');
      state.xp = Math.min(100, state.xp + 15);
      document.getElementById('xpFill').style.width = state.xp + '%';
      awardAchievement('parkour-complete', 'Parkour Master', 'Completed a parkour run.');
      running = false;
    }
    if (running) requestAnimationFrame(step);
  }
  \<close>
  The dash in the message is the three bytes of its UTF-8 encoding.
\<close>

definition complete_msg :: string where
  "complete_msg = ''You reached the end '' @ [char_of (226::nat), char_of (128::nat), char_of (148::nat)] @ '' +15 XP''"

definition win_check :: "arena \<Rightarrow> module_state \<times> parkour \<Rightarrow> module_state \<times> parkour" where
  "win_check a s =
     (let m = fst s; pk = snd s
      in if p_x (player pk) > clientWidth a - 120 then
           (let m1 = tell (Notify ''Parkour Complete'' complete_msg) m;
                m2 = tell (Play ''xp'') m1;
                m3 = m2\<lparr>m_xp := min 100 (m_xp m2 + 15)\<rparr>;
                m4 = tell (XpFill (m_xp m3)) m3;
                m5 = awardAchievement ''parkour-complete'' ''Parkour Master''
                       ''Completed a parkour run.'' m4
            in (m5, pk\<lparr>running := False\<rparr>))
         else s)"

definition step :: "real \<Rightarrow> arena \<Rightarrow> module_state \<times> parkour \<Rightarrow> module_state \<times> parkour" where
  "step now a s =
     (let pk = snd s;
          dt = elapsed now (last_tick pk);
          pk1 = pk\<lparr>last_tick := now\<rparr>;
          s2 = move dt (fst s, player pk1);
          p3 = collision_pass (platforms pk1) (snd s2);
          p4 = clamp_to_arena a p3;
          s5 = fall_check a (fst s2, p4);
          m6 = tell (Render (js_round (p_x (snd s5))) (js_round (p_y (snd s5)))) (fst s5);
          s7 = win_check a (m6, pk1\<lparr>player := snd s5\<rparr>);
          pk7 = snd s7
      in (fst s7, if running pk7 then pk7\<lparr>frame_requested := True\<rparr> else pk7))"

text \<open>
  The browser's animation frame: it runs the callback that was requested, once.
  Nothing in the source takes a request back (there is no \<open>cancelAnimationFrame\<close>).
\<close>

definition frame :: "real \<Rightarrow> arena \<Rightarrow> module_state \<times> parkour \<Rightarrow> module_state \<times> parkour" where
  "frame now a s =
     (if frame_requested (snd s) then step now a (fst s, (snd s)\<lparr>frame_requested := False\<rparr>)
      else s)"

text \<open>A run of the loop over the frames the browser delivers (time stamp and arena size).\<close>

fun run_frames :: "(real \<times> arena) list \<Rightarrow> module_state \<times> parkour \<Rightarrow> module_state \<times> parkour" where
  "run_frames [] s = s"
| "run_frames (f # fs) s = run_frames fs (frame (fst f) (snd f) s)"

subsection \<open>Parkour: the claims' vocabulary and example states\<close>

text \<open>
  The condition of the specification for a body to land on a platform: the horizontal
  extents overlap, the bottom edge is in the band of 16 pixels below the platform's
  surface, and the body is not moving upward. \<open>snapped_onto\<close> is what the specification
  asks of a landing.
\<close>

definition snap_condition :: "player \<Rightarrow> platform \<Rightarrow> bool" where
  "snap_condition p pl \<longleftrightarrow>
     (p_x p < pl_x pl + pl_w pl \<and> pl_x pl < p_x p + p_w p)
     \<and> (pl_y pl \<le> p_y p + p_h p \<and> p_y p + p_h p < pl_y pl + 16)
     \<and> p_vy p \<ge> 0"

definition snapped_onto :: "platform \<Rightarrow> player \<Rightarrow> player" where
  "snapped_onto pl p = p\<lparr>p_y := pl_y pl - p_h p, p_vy := 0, onGround := True\<rparr>"

text \<open>
  The body as the fall check of a tick finds it (after the move, the collision pass and
  the clamp), and as the victory check finds it (after the fall check): the prefixes of
  \<open>step\<close>.
\<close>

definition at_fall_check :: "real \<Rightarrow> arena \<Rightarrow> module_state \<times> parkour \<Rightarrow> module_state \<times> player" where
  "at_fall_check now a s =
     (let s2 = move (elapsed now (last_tick (snd s))) (fst s, player (snd s))
      in (fst s2, clamp_to_arena a (collision_pass (platforms (snd s)) (snd s2))))"

definition at_win_check :: "real \<Rightarrow> arena \<Rightarrow> module_state \<times> parkour \<Rightarrow> module_state \<times> player" where
  "at_win_check now a s = fall_check a (at_fall_check now a s)"

definition fell_note :: m_effect where
  "fell_note = Notify ''Parkour'' ''You fell. Resetting run...''"

definition complete_note :: m_effect where
  "complete_note = Notify ''Parkour Complete'' complete_msg"

definition master_note :: m_effect where
  "master_note = Notify ''Parkour Master'' ''Completed a parkour run.''"

text \<open>
  Example states: an arena of 700 by 320 pixels; the instance \<open>setupParkour\<close> builds in it
  at time 0; the body standing on the first platform; the body dropping through the gap
  after the first platform; the body on the fourth platform, one step short of the
  victory line at 580. \<open>holding k\<close> presses a key.
\<close>

definition arena0 :: arena where
  "arena0 = \<lparr>clientWidth = 700, clientHeight = 320\<rparr>"

definition fresh :: parkour where
  "fresh = \<lparr>player = spawn 320, platforms = layout 320, last_tick = 0,
      running = True, frame_requested = True, listening = True\<rparr>"

definition resting :: parkour where
  "resting = fresh\<lparr>player := (spawn 320)\<lparr>onGround := True\<rparr>\<rparr>"

definition falling :: parkour where
  "falling = fresh\<lparr>player := (spawn 320)\<lparr>p_x := 150, p_y := 315, p_vy := 5\<rparr>\<rparr>"

definition finishing :: parkour where
  "finishing = fresh\<lparr>player := (spawn 320)\<lparr>p_x := 579, p_y := 100, onGround := True\<rparr>\<rparr>"

definition holding :: "string \<Rightarrow> module_state \<Rightarrow> module_state" where
  "holding k m = m\<lparr>keys := (keys m)(k := True)\<rparr>"

section \<open>Verification\<close>

subsection \<open>Experience points\<close>

lemma bits_le: "n < 2 ^ k \<Longrightarrow> bits n \<le> k"
proof (induction k arbitrary: n)
  case 0
  then have "n \<le> 0" by simp
  then show ?case by (subst bits.simps) simp
next
  case (Suc k)
  show ?case
  proof (cases "n \<le> 0")
    case True
    then show ?thesis by (subst bits.simps) simp
  next
    case False
    from Suc.prems have "n div 2 < 2 ^ k" by simp
    then have "bits (n div 2) \<le> k" by (rule Suc.IH)
    with False show ?thesis by (subst bits.simps) simp
  qed
qed

lemma dbl_exact: "n < 2 ^ 53 \<Longrightarrow> dbl n = n"
  using bits_le [of n 53] by (simp add: dbl_def Let_def)

lemma round_double_exact: "\<bar>i\<bar> < 2 ^ 53 \<Longrightarrow> round_double i = i"
  by (auto simp add: round_double_def dbl_exact)

lemma js_num_exact: "\<bar>i\<bar> < 2 ^ 53 \<Longrightarrow> js_num i = Some i"
proof -
  assume a: "\<bar>i\<bar> < 2 ^ 53"
  have "(2::int) ^ 53 \<le> 2 ^ 1024" by (rule power_increasing) simp_all
  with a have "\<bar>i\<bar> < 2 ^ 1024" by linarith
  with a show ?thesis by (simp add: js_num_def round_double_exact Let_def)
qed

lemma exact_threshold_div: "exact_threshold t = (3 * t) div 2"
proof -
  have "real_of_int t * 1.5 = real_of_int (3 * t) / real_of_int 2" by simp
  then show ?thesis
    unfolding exact_threshold_def by (simp only: floor_divide_of_int_eq)
qed

lemma exact_threshold_pos: "0 < t \<Longrightarrow> 0 < exact_threshold t"
  by (simp add: exact_threshold_div)

lemma next_threshold_exact:
  assumes "\<bar>3 * t\<bar> < 2 ^ 53"
  shows "next_threshold t = Some (exact_threshold t)"
proof -
  have "(2::int) ^ 53 \<le> 2 ^ 1025" by (rule power_increasing) simp_all
  with assms have "\<bar>3 * t\<bar> < 2 ^ 1025" by linarith
  with assms show ?thesis
    by (simp add: next_threshold_def round_double_exact exact_threshold_div Let_def)
qed

lemma levelUp_exact:
  assumes "in_exact_range (fst s)" and "xpToNext (fst s) \<le> xp (fst s)"
  shows "levelUp s =
     Some (emit (PlaySound ''xp_gain'')
            (emit (ShowToast ''Level Up!'' (''Reached level '' @ string_of_int (level (fst s) + 1)))
               ((fst s)\<lparr>xp := xp (fst s) - xpToNext (fst s), level := level (fst s) + 1,
                     xpToNext := exact_threshold (xpToNext (fst s))\<rparr>, snd s)))"
proof -
  from assms have a: "\<bar>xp (fst s) - xpToNext (fst s)\<bar> < 2 ^ 53"
    and b: "\<bar>level (fst s) + 1\<bar> < 2 ^ 53" and c: "\<bar>3 * xpToNext (fst s)\<bar> < 2 ^ 53"
    unfolding in_exact_range_def by (simp_all add: abs_less_iff)
  show ?thesis
    by (simp add: levelUp_def Let_def js_num_exact [OF a] js_num_exact [OF b]
          next_threshold_exact [OF c])
qed

lemma addXP_loop_runs:
  "in_exact_range (fst s) \<Longrightarrow>
   \<exists>k s'. addXP_loop s = Some s'
     \<and> fst s' = (fst s)\<lparr>xp := xp (fst s) - (\<Sum>i<k. (exact_threshold ^^ i) (xpToNext (fst s))),
                        level := level (fst s) + int k,
                        xpToNext := (exact_threshold ^^ k) (xpToNext (fst s))\<rparr>
     \<and> 0 \<le> xp (fst s') \<and> xp (fst s') < xpToNext (fst s')"
proof (induction "nat (xp (fst s))" arbitrary: s rule: less_induct)
  case less
  show ?case
  proof (cases "xpToNext (fst s) \<le> xp (fst s)")
    case False
    then have "addXP_loop s = Some s"
      by (subst addXP_loop.simps) simp
    with False less.prems show ?thesis
      by (intro exI [of _ 0] exI [of _ s]) (simp add: in_exact_range_def)
  next
    case True
    define s1 where "s1 = emit (PlaySound ''xp_gain'')
            (emit (ShowToast ''Level Up!'' (''Reached level '' @ string_of_int (level (fst s) + 1)))
               ((fst s)\<lparr>xp := xp (fst s) - xpToNext (fst s), level := level (fst s) + 1,
                     xpToNext := exact_threshold (xpToNext (fst s))\<rparr>, snd s))"
    have l: "levelUp s = Some s1"
      unfolding s1_def using less.prems True by (rule levelUp_exact)
    have f: "fst s1 = (fst s)\<lparr>xp := xp (fst s) - xpToNext (fst s), level := level (fst s) + 1,
                     xpToNext := exact_threshold (xpToNext (fst s))\<rparr>"
      by (simp add: s1_def emit_def)
    have m: "nat (xp (fst s1)) < nat (xp (fst s))"
      using True less.prems by (simp add: f in_exact_range_def)
    have i: "in_exact_range (fst s1)"
      using True less.prems by (simp add: f in_exact_range_def exact_threshold_pos)
    from less.hyps [OF m i] obtain k s' where
      k: "addXP_loop s1 = Some s'"
         "fst s' = (fst s1)\<lparr>xp := xp (fst s1) - (\<Sum>i<k. (exact_threshold ^^ i) (xpToNext (fst s1))),
                        level := level (fst s1) + int k,
                        xpToNext := (exact_threshold ^^ k) (xpToNext (fst s1))\<rparr>"
         "0 \<le> xp (fst s')" "xp (fst s') < xpToNext (fst s')"
      by blast
    have r: "addXP_loop s = Some s'"
      using True l k(1) by (subst addXP_loop.simps) simp
    have "fst s' = (fst s)\<lparr>xp := xp (fst s) - (\<Sum>i<Suc k. (exact_threshold ^^ i) (xpToNext (fst s))),
                        level := level (fst s) + int (Suc k),
                        xpToNext := (exact_threshold ^^ Suc k) (xpToNext (fst s))\<rparr>"
      unfolding k(2) f
      by (simp add: sum.lessThan_Suc_shift funpow_swap1 del: sum.lessThan_Suc)
    with r k(3,4) show ?thesis by blast
  qed
qed

text \<open>
  Claim C10, amended. On a progression state with \<open>0 \<le> xp\<close>, \<open>0 < xpToNext\<close> and
  \<open>0 \<le> level\<close>, for a non-negative integer amount with
  \<open>3 * (level + xp + amount) < 2 ^ 53\<close> (so that no result of the loop is rounded),
  \<open>addXP\<close> returns, after some number \<open>k\<close> of rounds of the loop, a state with
  \<open>0 \<le> xp < xpToNext\<close>. Each round adds one to the level, takes the old threshold off
  \<open>xp\<close> and replaces the threshold by the floor of 1.5 times itself, so the level has
  grown by \<open>k\<close> and the points left plus the \<open>k\<close> thresholds that were paid are the old
  points plus the amount.
\<close>

theorem addXP_carry:
  assumes "0 \<le> amount" and "0 \<le> xp st" and "0 < xpToNext st" and "0 \<le> level st"
    and "3 * (level st + xp st + amount) < 2 ^ 53"
  shows "\<exists>k st' fx'. addXP amount (st, fx) = Some (st', fx')
           \<and> 0 \<le> xp st' \<and> xp st' < xpToNext st'
           \<and> st' = st\<lparr>xp := xp st + amount - (\<Sum>i<k. (exact_threshold ^^ i) (xpToNext st)),
                       level := level st + int k,
                       xpToNext := (exact_threshold ^^ k) (xpToNext st)\<rparr>
           \<and> xp st' + (\<Sum>i<k. (exact_threshold ^^ i) (xpToNext st)) = xp st + amount
           \<and> (\<forall>t. exact_threshold t = \<lfloor>real_of_int t * 1.5\<rfloor>)
           \<and> (\<forall>s. in_exact_range (fst s) \<and> xpToNext (fst s) \<le> xp (fst s) \<longrightarrow>
                 (\<exists>s'. levelUp s = Some s'
                    \<and> xp (fst s') = xp (fst s) - xpToNext (fst s)
                    \<and> level (fst s') = level (fst s) + 1
                    \<and> xpToNext (fst s') = \<lfloor>real_of_int (xpToNext (fst s)) * 1.5\<rfloor>))"
proof -
  let ?s = "(st\<lparr>xp := xp st + amount\<rparr>, fx)"
  have j: "js_num (xp st + amount) = Some (xp st + amount)"
    using assms by (intro js_num_exact) (simp add: abs_less_iff)
  have "in_exact_range (fst ?s)"
    using assms by (simp add: in_exact_range_def algebra_simps)
  from addXP_loop_runs [OF this] obtain k s' where
    k: "addXP_loop ?s = Some s'"
       "fst s' = (fst ?s)\<lparr>xp := xp (fst ?s) - (\<Sum>i<k. (exact_threshold ^^ i) (xpToNext (fst ?s))),
                        level := level (fst ?s) + int k,
                        xpToNext := (exact_threshold ^^ k) (xpToNext (fst ?s))\<rparr>"
       "0 \<le> xp (fst s')" "xp (fst s') < xpToNext (fst s')"
    by blast
  have r: "addXP amount (st, fx) = Some (fst s', snd s' @ [UpdateHUD])"
    using k(1) j by (simp add: addXP_def emit_def)
  have e: "fst s' = st\<lparr>xp := xp st + amount - (\<Sum>i<k. (exact_threshold ^^ i) (xpToNext st)),
                       level := level st + int k,
                       xpToNext := (exact_threshold ^^ k) (xpToNext st)\<rparr>"
    using k(2) by simp
  have c: "xp (fst s') + (\<Sum>i<k. (exact_threshold ^^ i) (xpToNext st)) = xp st + amount"
    unfolding e by simp
  have d: "\<forall>s. in_exact_range (fst s) \<and> xpToNext (fst s) \<le> xp (fst s) \<longrightarrow>
                 (\<exists>s'. levelUp s = Some s'
                    \<and> xp (fst s') = xp (fst s) - xpToNext (fst s)
                    \<and> level (fst s') = level (fst s) + 1
                    \<and> xpToNext (fst s') = \<lfloor>real_of_int (xpToNext (fst s)) * 1.5\<rfloor>)"
    by (auto simp add: levelUp_exact emit_def exact_threshold_def)
  have t: "\<forall>t. exact_threshold t = \<lfloor>real_of_int t * 1.5\<rfloor>"
    by (simp add: exact_threshold_def)
  from r k(3,4) e c d t show ?thesis by blast
qed

theorem addXP_carry_witness:
  "\<exists>st' fx'. addXP 250 (initial_state, []) = Some (st', fx')
         \<and> 0 \<le> xp st' \<and> xp st' < xpToNext st'"
proof -
  have "0 \<le> (250::int)" "0 \<le> xp initial_state" "0 < xpToNext initial_state"
    "0 \<le> level initial_state" "3 * (level initial_state + xp initial_state + 250) < 2 ^ 53"
    by (simp_all add: initial_state_def)
  from addXP_carry [OF this, of "[]"] show ?thesis by blast
qed

text \<open>The same call evaluated: 250 points on a fresh state pay the thresholds 100 and 150.\<close>

lemma addXP_250:
  "map_option fst (addXP 250 (initial_state, []))
     = Some (initial_state\<lparr>xp := 0, level := 3, xpToNext := 225\<rparr>)"
  by code_simp

text \<open>
  Beyond that range the claim fails. With \<open>10 ^ 17\<close> points the first round of the loop
  cannot subtract the threshold 100 exactly: doubles of that size are 16 apart, and the
  difference is rounded to \<open>10 ^ 17 - 96\<close>. Four points have appeared from nowhere.
\<close>

theorem addXP_rounds_counterexample:
  "levelUp (initial_state\<lparr>xp := 10 ^ 17\<rparr>, [])
     = Some (initial_state\<lparr>xp := 99999999999999904, level := 2, xpToNext := 150\<rparr>,
             [ShowToast ''Level Up!'' ''Reached level 2'', PlaySound ''xp_gain''])
   \<and> (10 ^ 17 - 100 :: int) = 99999999999999900"
  by code_simp

text \<open>The whole call \<open>addXP(1e17)\<close> on a fresh state, evaluated in the rounded arithmetic.\<close>

lemma addXP_1e17:
  "map_option (\<lambda>s. (xp (fst s), level (fst s), xpToNext (fst s))) (addXP (10 ^ 17) (initial_state, []))
     = Some (17818250073463260, 84, 41090874963268480)"
  by code_simp

subsection \<open>Hotbar\<close>

text \<open>
  Claim C9. For an index below 0 or above 8, \<open>switchHotbar\<close> returns normally at once,
  whatever the depth of stack that is left: the engine state (hotbar index and biome
  included) and the effect list are the ones it was called with.
\<close>

theorem switchHotbar_out_of_range:
  "index < 0 \<or> index > 8 \<Longrightarrow> switchHotbar frames index s = Inr s"
  by simp

theorem switchHotbar_out_of_range_witness:
  "((9::int) < 0 \<or> (9::int) > 8)
   \<and> switchHotbar 0 9 (initial_state\<lparr>currentScreen := ''game''\<rparr>, [])
       = Inr (initial_state\<lparr>currentScreen := ''game''\<rparr>, [])
   \<and> switchHotbar 0 8 (initial_state\<lparr>currentScreen := ''game''\<rparr>, [])
       \<noteq> Inr (initial_state\<lparr>currentScreen := ''game''\<rparr>, [])"
  using switchHotbar_out_of_range [of 9 0 "(initial_state\<lparr>currentScreen := ''game''\<rparr>, [])"]
  by (simp add: biomes_def emit_def)

subsection \<open>Saved progress\<close>

lemma foldl_set_add_distinct:
  "distinct (acc @ xs) \<Longrightarrow> foldl (\<lambda>acc a. set_add a acc) acc xs = acc @ xs"
  by (induction xs arbitrary: acc) (simp_all add: set_add_def)

lemma new_Set_distinct: "distinct xs \<Longrightarrow> new_Set xs = xs"
  using foldl_set_add_distinct [of "[]" xs] by (simp add: new_Set_def)

lemma set_foldl_set_add: "set (foldl (\<lambda>acc a. set_add a acc) acc xs) = set acc \<union> set xs"
  by (induction xs arbitrary: acc) (auto simp add: set_add_def)

lemma set_new_Set: "set (new_Set xs) = set xs"
  by (simp add: new_Set_def set_foldl_set_add)

text \<open>
  Loading what was just saved gives the saved fields back as long as \<open>level\<close>, \<open>volume\<close>
  and \<open>sfxVolume\<close> are not zero.
\<close>

lemma save_load_roundtrip_nonzero:
  assumes "level st \<noteq> 0" and "volume st \<noteq> 0" and "sfxVolume st \<noteq> 0"
  shows "let st' = fst (load (save True now st storage) s) in
         xp st' = xp st \<and> level st' = level st
         \<and> set (unlockedAchievements st') = set (unlockedAchievements st)
         \<and> volume st' = volume st \<and> sfxVolume st' = sfxVolume st \<and> darkTheme st' = darkTheme st"
  using assms
  by (simp add: load_def save_def Let_def emit_def js_or_num_def js_or_array_def set_new_Set)

text \<open>
  Claim C3 asks that loading a saved state gives back its \<open>xp\<close>, \<open>level\<close>, achievements,
  \<open>volume\<close> and \<open>sfxVolume\<close>, zero values included. The code does not: a saved volume of 0
  is loaded as 0.5, a saved effects volume of 0 as 0.7 and a saved level of 0 as 1,
  because \<open>||\<close> takes a zero for a missing field. (A saved \<open>xp\<close> of 0 does come back, its
  default being 0.)
\<close>

theorem save_load_volume_zero:
  "volume (fst (load (save True now (initial_state\<lparr>volume := 0\<rparr>) None)
                  (initial_state\<lparr>volume := 0\<rparr>, []))) = 1 / 2
   \<and> sfxVolume (fst (load (save True now (initial_state\<lparr>sfxVolume := 0\<rparr>) None)
                       (initial_state\<lparr>sfxVolume := 0\<rparr>, []))) = 7 / 10
   \<and> level (fst (load (save True now (initial_state\<lparr>level := 0\<rparr>) None)
                   (initial_state\<lparr>level := 0\<rparr>, []))) = 1
   \<and> xp (fst (load (save True now (initial_state\<lparr>xp := 0\<rparr>) None)
                (initial_state\<lparr>xp := 0\<rparr>, []))) = 0"
  by (simp add: load_def save_def Let_def emit_def js_or_num_def js_or_array_def initial_state_def)

subsection \<open>Parkour: the collision pass\<close>

lemma collide_cases:
  "collide p pl = (if snap_condition p pl then snapped_onto pl p else p)"
  by (auto simp add: collide_def snap_condition_def snapped_onto_def Let_def)

lemma foldl_collide_grounded: "onGround p \<Longrightarrow> onGround (foldl collide p pls)"
  by (induction pls arbitrary: p) (simp_all add: collide_cases snapped_onto_def)

lemma foldl_collide_no_hit:
  "\<forall>pl\<in>set pls. \<not> snap_condition p pl \<Longrightarrow> foldl collide p pls = p"
  by (induction pls) (simp_all add: collide_cases)

lemma foldl_collide_onGround:
  "\<not> onGround p \<Longrightarrow> onGround (foldl collide p pls) \<longleftrightarrow> (\<exists>pl\<in>set pls. snap_condition p pl)"
proof (induction pls arbitrary: p)
  case Nil
  then show ?case by simp
next
  case (Cons pl pls)
  show ?case
  proof (cases "snap_condition p pl")
    case True
    then have "onGround (collide p pl)" by (simp add: collide_cases snapped_onto_def)
    then have "onGround (foldl collide (collide p pl) pls)" by (rule foldl_collide_grounded)
    with True show ?thesis by simp
  next
    case False
    then have "collide p pl = p" by (simp add: collide_cases)
    with False Cons show ?thesis by simp
  qed
qed

lemma snap_condition_onGround [simp]:
  "snap_condition (p\<lparr>onGround := b\<rparr>) pl = snap_condition p pl"
  by (simp add: snap_condition_def)

text \<open>
  Claim C4, for the collision pass of \<open>step\<close> (the module's parkour). For every platform
  the round of the loop snaps the body onto it (bottom edge on the surface, vertical
  velocity zero, \<open>onGround\<close> true) when the three conditions hold and leaves the body
  alone when they do not; after the pass the body is on the ground exactly when some
  platform met the conditions; and a body moving upward goes through the pass
  unchanged, off the ground.
\<close>

theorem collision_pass_snaps:
  "(\<forall>p pl. collide p pl = (if snap_condition p pl then snapped_onto pl p else p))
   \<and> (onGround (collision_pass pls p) \<longleftrightarrow> (\<exists>pl\<in>set pls. snap_condition p pl))
   \<and> (p_vy p < 0 \<longrightarrow> collision_pass pls p = p\<lparr>onGround := False\<rparr>)"
proof -
  have a: "onGround (collision_pass pls p) \<longleftrightarrow> (\<exists>pl\<in>set pls. snap_condition p pl)"
    unfolding collision_pass_def
    using foldl_collide_onGround [of "p\<lparr>onGround := False\<rparr>" pls] by simp
  have b: "p_vy p < 0 \<longrightarrow> collision_pass pls p = p\<lparr>onGround := False\<rparr>"
    unfolding collision_pass_def
    by (auto intro!: foldl_collide_no_hit simp add: snap_condition_def)
  from a b collide_cases show ?thesis by blast
qed

theorem collision_pass_snaps_witness:
  "onGround (collision_pass (layout 320) (spawn 320))
   \<and> p_vy ((spawn 320)\<lparr>p_vy := - 1\<rparr>) < 0
   \<and> collision_pass (layout 320) ((spawn 320)\<lparr>p_vy := - 1\<rparr>) = (spawn 320)\<lparr>p_vy := - 1\<rparr>"
proof -
  have h1: "hd (layout 320) \<in> set (layout 320)" by (simp add: layout_def)
  have h2: "snap_condition (spawn 320) (hd (layout 320))"
    by (simp add: snap_condition_def layout_def spawn_def)
  have h3: "p_vy ((spawn 320)\<lparr>p_vy := - 1\<rparr>) < 0" by code_simp
  have h4: "(spawn 320)\<lparr>p_vy := - 1, onGround := False\<rparr> = (spawn 320)\<lparr>p_vy := - 1\<rparr>" by code_simp
  from collision_pass_snaps [where pls = "layout 320" and p = "spawn 320"]
       collision_pass_snaps [where pls = "layout 320" and p = "(spawn 320)\<lparr>p_vy := - 1\<rparr>"] h1 h2 h3 h4
  show ?thesis by auto
qed

text \<open>
  The engine's \<open>updateParkour\<close> has no test of the velocity: a body with negative
  vertical velocity inside the box of a platform is snapped all the same.
\<close>

theorem updateParkour_snaps_upward_counterexample:
  "velocityY (eparkour_init\<lparr>playerY := 48.5, velocityY := - 11.5\<rparr>) < 0
   \<and> e_collide True 0 ((eparkour_init\<lparr>playerY := 48.5, velocityY := - 11.5\<rparr>, False),
          ((initial_state, []), None))
        \<lparr>platX = 50, platY = 40, platWidth = 100, is_end = False\<rparr>
       = Some ((eparkour_init\<lparr>playerY := - 10, velocityY := 0\<rparr>, True), ((initial_state, []), None))"
  by (simp add: e_collide_def eparkour_init_def Let_def)

subsection \<open>Parkour: the tick in stages\<close>

lemma player_win_check [simp]: "player (snd (win_check a s)) = player (snd s)"
  by (simp add: win_check_def Let_def)

lemma player_step:
  "player (snd (step now a s)) =
     snd (fall_check a (fst (move (elapsed now (last_tick (snd s))) (fst s, player (snd s))),
            clamp_to_arena a (collision_pass (platforms (snd s))
               (snd (move (elapsed now (last_tick (snd s))) (fst s, player (snd s)))))))"
  by (simp add: step_def Let_def)

lemma step_unfold:
  "step now a s =
     (let s5 = at_win_check now a s;
          m6 = tell (Render (js_round (p_x (snd s5))) (js_round (p_y (snd s5)))) (fst s5);
          s7 = win_check a (m6, (snd s)\<lparr>last_tick := now, player := snd s5\<rparr>);
          pk7 = snd s7
      in (fst s7, if running pk7 then pk7\<lparr>frame_requested := True\<rparr> else pk7))"
  by (simp add: step_def at_win_check_def at_fall_check_def Let_def)

lemma player_step_win: "player (snd (step now a s)) = snd (at_win_check now a s)"
  by (simp add: step_unfold Let_def)

lemma trace_move:
  "trace (fst (move dt (m, p))) = trace m @ (if up_held m \<and> onGround p then [Play ''click''] else [])"
  by (simp add: move_def Let_def tell_def)

lemma trace_fall_check:
  "trace (fst (fall_check a (m, p)))
     = trace m @ (if p_y p > clientHeight a then [fell_note, Play ''page''] else [])"
  by (simp add: fall_check_def Let_def tell_def fell_note_def)

lemma trace_awardAchievement:
  "trace (awardAchievement i t msg m)
     = trace m @ (if i \<in> set (achievements m) then [] else [Notify t msg, Play ''achievement''])"
  by (simp add: awardAchievement_def tell_def)

lemma trace_win_check:
  "trace (fst (win_check a (m, pk)))
     = trace m @
       (if p_x (player pk) > clientWidth a - 120
        then [complete_note, Play ''xp'', XpFill (min 100 (m_xp m + 15))]
             @ (if ''parkour-complete'' \<in> set (achievements m) then []
                else [master_note, Play ''achievement''])
        else [])"
  by (simp add: win_check_def Let_def tell_def trace_awardAchievement complete_note_def master_note_def)

lemma trace_at_fall_check:
  "trace (fst (at_fall_check now a (m, pk)))
     = trace m @ (if up_held m \<and> onGround (player pk) then [Play ''click''] else [])"
  by (simp add: at_fall_check_def Let_def trace_move)

lemma achievements_at_win_check [simp]:
  "achievements (fst (at_win_check now a s)) = achievements (fst s)"
  "m_xp (fst (at_win_check now a s)) = m_xp (fst s)"
  by (simp_all add: at_win_check_def at_fall_check_def fall_check_def move_def Let_def tell_def)

lemma trace_step:
  "trace (fst (step now a (m, pk)))
     = trace m
       @ (if up_held m \<and> onGround (player pk) then [Play ''click''] else [])
       @ (if p_y (snd (at_fall_check now a (m, pk))) > clientHeight a then [fell_note, Play ''page''] else [])
       @ [Render (js_round (p_x (snd (at_win_check now a (m, pk))))) (js_round (p_y (snd (at_win_check now a (m, pk)))))]
       @ (if p_x (snd (at_win_check now a (m, pk))) > clientWidth a - 120
          then [complete_note, Play ''xp'', XpFill (min 100 (m_xp m + 15))]
               @ (if ''parkour-complete'' \<in> set (achievements m) then []
                  else [master_note, Play ''achievement''])
          else [])"
proof -
  obtain m1 p1 where f: "at_fall_check now a (m, pk) = (m1, p1)" by (cases "at_fall_check now a (m, pk)")
  have t1: "trace m1 = trace m @ (if up_held m \<and> onGround (player pk) then [Play ''click''] else [])"
    using trace_at_fall_check [of now a m pk] f by simp
  obtain m2 p2 where w: "at_win_check now a (m, pk) = (m2, p2)" by (cases "at_win_check now a (m, pk)")
  have t2: "trace m2 = trace m1 @ (if p_y p1 > clientHeight a then [fell_note, Play ''page''] else [])"
    using trace_fall_check [of a m1 p1] w f by (simp add: at_win_check_def)
  have e: "achievements m2 = achievements m" "m_xp m2 = m_xp m"
    using achievements_at_win_check [of now a "(m, pk)"] w by simp_all
  show ?thesis
    unfolding step_unfold Let_def
    by (simp add: w f trace_win_check t2 t1 tell_def e)
qed

lemma notes_distinct [simp]:
  "fell_note \<noteq> complete_note" "fell_note \<noteq> master_note" "complete_note \<noteq> master_note"
  "complete_note \<noteq> fell_note" "master_note \<noteq> fell_note" "master_note \<noteq> complete_note"
  "fell_note \<noteq> Play s" "complete_note \<noteq> Play s" "master_note \<noteq> Play s"
  "fell_note \<noteq> Render i j" "complete_note \<noteq> Render i j" "master_note \<noteq> Render i j"
  "fell_note \<noteq> XpFill i" "complete_note \<noteq> XpFill i" "master_note \<noteq> XpFill i"
  "Play s \<noteq> fell_note" "Play s \<noteq> complete_note" "Play s \<noteq> master_note"
  "Render i j \<noteq> fell_note" "Render i j \<noteq> complete_note" "Render i j \<noteq> master_note"
  "XpFill i \<noteq> fell_note" "XpFill i \<noteq> complete_note" "XpFill i \<noteq> master_note"
  by (simp_all add: fell_note_def complete_note_def master_note_def)

lemma run_frames_idle: "\<not> frame_requested (snd s) \<Longrightarrow> run_frames fs s = s"
  by (induction fs) (simp_all add: frame_def)

subsection \<open>Parkour: the body at rest\<close>

lemma elapsed_bounds:
  assumes "lst \<le> now"
  shows "0 \<le> elapsed now lst" and "elapsed now lst \<le> 2"
  using assms by (simp_all add: elapsed_def min_def)

lemma rest_drift:
  assumes "0 \<le> (dt::real)" and "dt \<le> 2"
  shows "0 \<le> 0.45 * dt * dt" and "0.45 * dt * dt < 16"
proof -
  from assms have "dt * dt \<le> 2 * 2" by (intro mult_mono) simp_all
  then show "0.45 * dt * dt < 16" by simp
  from assms show "0 \<le> 0.45 * dt * dt" by simp
qed

lemma collide_x [simp]: "p_x (collide p q) = p_x p" "p_w (collide p q) = p_w p" "p_h (collide p q) = p_h p"
  by (simp_all add: collide_def Let_def)

lemma foldl_collide_stay:
  assumes "\<forall>q\<in>set pls. pl_x q < p_x p + p_w p \<and> p_x p < pl_x q + pl_w q \<longrightarrow> pl_y q = Y"
    and "p_y p + p_h p = Y" and "p_vy p = 0" and "onGround p"
  shows "foldl collide p pls = p"
  using assms
proof (induction pls)
  case Nil
  then show ?case by simp
next
  case (Cons q qs)
  have "collide p q = p"
  proof (cases "pl_x q < p_x p + p_w p \<and> p_x p < pl_x q + pl_w q")
    case True
    with Cons.prems have "pl_y q = Y" by simp
    with Cons.prems True show ?thesis
      by (cases p) (simp add: collide_def Let_def)
  next
    case False
    then show ?thesis by (auto simp add: collide_def Let_def)
  qed
  with Cons show ?case by simp
qed

lemma foldl_collide_land:
  assumes "\<forall>q\<in>set pls. pl_x q < p_x p + p_w p \<and> p_x p < pl_x q + pl_w q \<longrightarrow> pl_y q = Y"
    and "pl \<in> set pls" and "pl_x pl < p_x p + p_w p" and "p_x p < pl_x pl + pl_w pl"
    and "Y \<le> p_y p + p_h p" and "p_y p + p_h p < Y + 16" and "0 \<le> p_vy p"
  shows "foldl collide p pls = p\<lparr>p_y := Y - p_h p, p_vy := 0, onGround := True\<rparr>"
  using assms
proof (induction pls)
  case Nil
  then show ?case by simp
next
  case (Cons q qs)
  let ?p = "p\<lparr>p_y := Y - p_h p, p_vy := 0, onGround := True\<rparr>"
  show ?case
  proof (cases "pl_x q < p_x p + p_w p \<and> p_x p < pl_x q + pl_w q")
    case True
    with Cons.prems have "pl_y q = Y" by simp
    with Cons.prems True have c: "collide p q = ?p"
      by (simp add: collide_def Let_def)
    have "foldl collide ?p qs = ?p"
      using Cons.prems(1) by (intro foldl_collide_stay [where Y = Y]) simp_all
    with c show ?thesis by simp
  next
    case False
    then have c: "collide p q = p" by (auto simp add: collide_def Let_def)
    from False Cons.prems have "pl \<in> set qs" by auto
    with Cons c show ?thesis by simp
  qed
qed

lemma move_idle:
  assumes "\<not> left_held m" "\<not> right_held m" "\<not> up_held m" "p_vy p = 0"
  shows "move dt (m, p) = (m, p\<lparr>p_vx := 0, p_vy := 0.45 * dt, p_y := p_y p + 0.45 * dt * dt\<rparr>)"
  using assms by (simp add: move_def Let_def)

lemma clamp_inside:
  "0 \<le> p_x p \<Longrightarrow> p_x p + p_w p \<le> clientWidth a - 6 \<Longrightarrow> clamp_to_arena a p = p"
  by (simp add: clamp_to_arena_def Let_def)

lemma fall_check_above:
  "p_y p \<le> clientHeight a \<Longrightarrow> fall_check a (m, p) = (m, p)"
  by (simp add: fall_check_def Let_def)

text \<open>
  Claim C8, amended. A body that stands on a platform (on the ground, no vertical
  velocity, bottom edge on the surface of a platform under it, no platform under it at
  another height), inside the arena, with no key of the three intents held (left, right
  and jump) and a time stamp not before the last one, comes out of the tick at the same
  position, on the ground, with no velocity.
\<close>

theorem rest_is_fixed_point:
  assumes rest: "onGround (player pk)" "p_vy (player pk) = 0"
      "pl \<in> set (platforms pk)" "p_y (player pk) + p_h (player pk) = pl_y pl"
      "pl_x pl < p_x (player pk) + p_w (player pk)" "p_x (player pk) < pl_x pl + pl_w pl"
    and level: "\<forall>q\<in>set (platforms pk).
        pl_x q < p_x (player pk) + p_w (player pk) \<and> p_x (player pk) < pl_x q + pl_w q
          \<longrightarrow> pl_y q = pl_y pl"
    and idle: "\<not> left_held m" "\<not> right_held m" "\<not> up_held m"
    and time: "last_tick pk \<le> now"
    and inside: "0 \<le> p_x (player pk)" "p_x (player pk) + p_w (player pk) \<le> clientWidth a - 6"
      "p_y (player pk) \<le> clientHeight a"
  shows "player (snd (step now a (m, pk))) = (player pk)\<lparr>p_vx := 0\<rparr>"
proof -
  define p where "p = player pk"
  define dt where "dt = elapsed now (last_tick pk)"
  define d where "d = 0.45 * dt * dt"
  define q where "q = p\<lparr>p_vx := 0, p_vy := 0.45 * dt, p_y := p_y p + d, onGround := False\<rparr>"
  have mv: "move dt (m, p) = (m, p\<lparr>p_vx := 0, p_vy := 0.45 * dt, p_y := p_y p + d\<rparr>)"
    using idle rest(2) unfolding p_def d_def by (rule move_idle)
  from elapsed_bounds [OF time] have dt: "0 \<le> dt" "dt \<le> 2" unfolding dt_def .
  from rest_drift [OF dt] have d: "0 \<le> d" "d < 16" unfolding d_def .
  have q1: "\<forall>r\<in>set (platforms pk). pl_x r < p_x q + p_w q \<and> p_x q < pl_x r + pl_w r \<longrightarrow> pl_y r = pl_y pl"
    using level by (simp add: q_def p_def)
  have q2: "pl_x pl < p_x q + p_w q" "p_x q < pl_x pl + pl_w pl"
    using rest(5,6) by (simp_all add: q_def p_def)
  have q3: "pl_y pl \<le> p_y q + p_h q" "p_y q + p_h q < pl_y pl + 16"
    using rest(4) d by (simp_all add: q_def p_def)
  have q4: "0 \<le> p_vy q" using dt by (simp add: q_def)
  have "foldl collide q (platforms pk) = q\<lparr>p_y := pl_y pl - p_h q, p_vy := 0, onGround := True\<rparr>"
    using q1 rest(3) q2 q3 q4 by (rule foldl_collide_land)
  also have "\<dots> = p\<lparr>p_vx := 0\<rparr>"
    using rest(1,2,4) unfolding q_def p_def by (cases "player pk") simp
  finally have cp: "collision_pass (platforms pk) (p\<lparr>p_vx := 0, p_vy := 0.45 * dt, p_y := p_y p + d\<rparr>)
      = p\<lparr>p_vx := 0\<rparr>"
    by (simp add: collision_pass_def q_def)
  have cl: "clamp_to_arena a (p\<lparr>p_vx := 0\<rparr>) = p\<lparr>p_vx := 0\<rparr>"
    using inside(1,2) by (intro clamp_inside) (simp_all add: p_def)
  have fc: "fall_check a (m, p\<lparr>p_vx := 0\<rparr>) = (m, p\<lparr>p_vx := 0\<rparr>)"
    using inside(3) by (intro fall_check_above) (simp add: p_def)
  have "player (snd (step now a (m, pk))) = p\<lparr>p_vx := 0\<rparr>"
    unfolding player_step
    by (simp only: fst_conv snd_conv p_def [symmetric] dt_def [symmetric] mv cp cl fc)
  then show ?thesis by (simp add: p_def)
qed

theorem rest_is_fixed_point_witness:
  "player (snd (step 16.666 arena0 (module_init, resting))) = (spawn 320)\<lparr>onGround := True\<rparr>"
  using rest_is_fixed_point [of resting "hd (layout 320)" module_init "16.666" arena0]
  by (simp add: resting_def fresh_def layout_def spawn_def module_init_def arena0_def
        left_held_def right_held_def up_held_def)

text \<open>
  With the jump key held and no horizontal key, the body at rest leaves the platform:
  the claim as it stands fails.
\<close>

theorem rest_jump_counterexample:
  "onGround (player resting) \<and> p_vy (player resting) = 0
   \<and> p_y (player resting) + p_h (player resting) = pl_y (hd (platforms resting))
   \<and> \<not> left_held (module_init\<lparr>keys := (keys module_init)('' '' := True)\<rparr>)
   \<and> \<not> right_held (module_init\<lparr>keys := (keys module_init)('' '' := True)\<rparr>)
   \<and> p_y (player (snd (step 16.666 arena0
            (module_init\<lparr>keys := (keys module_init)('' '' := True)\<rparr>, resting)))) = 264.8
   \<and> \<not> onGround (player (snd (step 16.666 arena0
            (module_init\<lparr>keys := (keys module_init)('' '' := True)\<rparr>, resting))))"
  by code_simp

subsection \<open>Parkour: falling out of the arena\<close>

lemma p_vx_collide [simp]: "p_vx (collide p q) = p_vx p"
  by (simp add: collide_def Let_def)

lemma p_vx_foldl_collide [simp]: "p_vx (foldl collide p pls) = p_vx p"
  by (induction pls arbitrary: p) simp_all

lemma p_vx_at_fall_check:
  "p_vx (snd (at_fall_check now a (m, pk)))
     = (if left_held m then - speed (player pk)
        else if right_held m then speed (player pk) else 0)"
  by (simp add: at_fall_check_def move_def clamp_to_arena_def collision_pass_def Let_def)

lemma setupParkour_spawn:
  "clientHeight a \<noteq> 0 \<Longrightarrow>
   \<exists>pk0. setupParkour t0 (Some a) = Some pk0
      \<and> p_x (player pk0) = 20 \<and> p_y (player pk0) = clientHeight a - 48"
  by (simp add: setupParkour_def spawn_def Let_def)

text \<open>
  Claim C6, amended. On a tick whose fall check finds the body below the bottom of the
  arena, the body leaves the tick with vertical velocity zero and with the horizontal
  velocity that the keys of this tick gave it (minus the speed, the speed, or zero); if
  the height of the arena is not zero, the body is where \<open>setupParkour\<close> puts the body of
  an instance in this arena, the spawn position; and the tick sends the notification of
  the fall once and the sound \<open>page\<close> once. On any other tick the fall check leaves
  the body alone and the tick sends neither.
\<close>

theorem fall_resets_body:
  "(p_y (snd (at_fall_check now a (m, pk))) > clientHeight a \<longrightarrow>
      (clientHeight a \<noteq> 0 \<longrightarrow>
         (\<exists>pk0. setupParkour t0 (Some a) = Some pk0
            \<and> p_x (player (snd (step now a (m, pk)))) = p_x (player pk0)
            \<and> p_y (player (snd (step now a (m, pk)))) = p_y (player pk0)))
      \<and> p_vy (player (snd (step now a (m, pk)))) = 0
      \<and> p_vx (player (snd (step now a (m, pk))))
          = (if left_held m then - speed (player pk)
             else if right_held m then speed (player pk) else 0)
      \<and> (\<exists>new. trace (fst (step now a (m, pk))) = trace m @ new
            \<and> count_list new fell_note = 1 \<and> count_list new (Play ''page'') = 1))
   \<and> (\<not> p_y (snd (at_fall_check now a (m, pk))) > clientHeight a \<longrightarrow>
      player (snd (step now a (m, pk))) = snd (at_fall_check now a (m, pk))
      \<and> (\<exists>new. trace (fst (step now a (m, pk))) = trace m @ new
            \<and> count_list new fell_note = 0 \<and> count_list new (Play ''page'') = 0))"
proof -
  obtain m1 p1 where f: "at_fall_check now a (m, pk) = (m1, p1)"
    by (cases "at_fall_check now a (m, pk)")
  have pl: "player (snd (step now a (m, pk))) = snd (fall_check a (m1, p1))"
    by (simp add: player_step_win at_win_check_def f)
  have vx: "p_vx p1 = (if left_held m then - speed (player pk)
             else if right_held m then speed (player pk) else 0)"
    using p_vx_at_fall_check [of now a m pk] f by simp
  have sp: "clientHeight a \<noteq> 0 \<longrightarrow>
         (\<exists>pk0. setupParkour t0 (Some a) = Some pk0
            \<and> p_x (player pk0) = 20 \<and> p_y (player pk0) = clientHeight a - 48)"
    using setupParkour_spawn [of a t0] by blast
  have tr: "(p_y p1 > clientHeight a \<longrightarrow>
        (\<exists>new. trace (fst (step now a (m, pk))) = trace m @ new
            \<and> count_list new fell_note = 1 \<and> count_list new (Play ''page'') = 1))
     \<and> (\<not> p_y p1 > clientHeight a \<longrightarrow>
        (\<exists>new. trace (fst (step now a (m, pk))) = trace m @ new
            \<and> count_list new fell_note = 0 \<and> count_list new (Play ''page'') = 0))"
    unfolding trace_step by (simp add: f)
  have fl: "p_y p1 > clientHeight a \<longrightarrow>
        snd (fall_check a (m1, p1)) = p1\<lparr>p_x := 20, p_y := clientHeight a - 48, p_vy := 0\<rparr>"
    by (simp add: fall_check_def Let_def)
  have nf: "\<not> p_y p1 > clientHeight a \<longrightarrow> snd (fall_check a (m1, p1)) = p1"
    by (simp add: fall_check_def Let_def)
  from sp tr fl nf vx show ?thesis
    unfolding pl f by auto
qed

theorem fall_resets_body_witness:
  "clientHeight arena0 < p_y (snd (at_fall_check 16.666 arena0 (module_init, falling)))
   \<and> clientHeight arena0 \<noteq> 0
   \<and> setupParkour 0 (Some arena0) = Some fresh
   \<and> p_x (player (snd (step 16.666 arena0 (module_init, falling)))) = p_x (player fresh)
   \<and> p_y (player (snd (step 16.666 arena0 (module_init, falling)))) = p_y (player fresh)
   \<and> p_vy (player (snd (step 16.666 arena0 (module_init, falling)))) = 0
   \<and> p_vx (player (snd (step 16.666 arena0 (module_init, falling)))) = 0"
proof -
  have h1: "clientHeight arena0 < p_y (snd (at_fall_check 16.666 arena0 (module_init, falling)))"
    by code_simp
  have h2: "clientHeight arena0 \<noteq> 0" by code_simp
  have h3: "setupParkour 0 (Some arena0) = Some fresh" by code_simp
  have h4: "\<not> left_held module_init" "\<not> right_held module_init" by code_simp+
  from fall_resets_body [where now = "16.666" and a = arena0 and m = module_init
      and pk = falling and ?t0.0 = 0] h1 h2 h3 h4
  show ?thesis by auto
qed

text \<open>
  With a direction key held the body leaves the fall tick moving sideways: the velocity is
  not zero, as the claim has it.
\<close>

theorem fall_keeps_vx_counterexample:
  "clientHeight arena0 < p_y (snd (at_fall_check 16.666 arena0 (holding ''d'' module_init, falling)))
   \<and> p_vx (player (snd (step 16.666 arena0 (holding ''d'' module_init, falling)))) = 2.9
   \<and> p_vy (player (snd (step 16.666 arena0 (holding ''d'' module_init, falling)))) = 0"
  by code_simp

text \<open>
  In an arena of height zero \<open>setupParkour\<close> takes 320 for the height and puts the body
  at \<open>y = 272\<close>, but the fall branch reads the height as it is and puts it at \<open>y = -48\<close>.
\<close>

lemma fall_in_flat_arena:
  "map_option (\<lambda>pk. p_y (player pk)) (setupParkour 0 (Some \<lparr>clientWidth = 700, clientHeight = 0\<rparr>))
     = Some 272
   \<and> p_y (player (snd (step 16.666 \<lparr>clientWidth = 700, clientHeight = 0\<rparr> (module_init, fresh))))
     = - 48"
  by code_simp

subsection \<open>Parkour: victory\<close>

lemma win_check_won:
  assumes "p_x (player pk) > clientWidth a - 120"
  shows "m_xp (fst (win_check a (m, pk))) = min 100 (m_xp m + 15)"
    and "set (achievements (fst (win_check a (m, pk)))) = insert ''parkour-complete'' (set (achievements m))"
    and "snd (win_check a (m, pk)) = pk\<lparr>running := False\<rparr>"
  using assms by (auto simp add: win_check_def Let_def tell_def awardAchievement_def)

lemma win_check_not_won:
  assumes "\<not> p_x (player pk) > clientWidth a - 120"
  shows "win_check a (m, pk) = (m, pk)"
  using assms by (simp add: win_check_def Let_def)

text \<open>
  Claim C2, amended. On the frame whose victory check finds the body beyond
  \<open>clientWidth - 120\<close>, the loop sends the notification of completion once, sets the
  points to the minimum of 100 and the points plus 15, has \<open>parkour-complete\<close> among the
  achievements afterwards, sending the notification of the achievement once if it was
  not there before and not at all if it was, and stops: no frame is requested, so no
  later frame changes anything.
\<close>

theorem win_completes_once:
  assumes "frame_requested pk"
    and "p_x (snd (at_win_check now a (m, pk))) > clientWidth a - 120"
  shows "(\<exists>new. trace (fst (frame now a (m, pk))) = trace m @ new
            \<and> count_list new complete_note = 1
            \<and> count_list new master_note
                = (if ''parkour-complete'' \<in> set (achievements m) then 0 else 1))
     \<and> m_xp (fst (frame now a (m, pk))) = min 100 (m_xp m + 15)
     \<and> set (achievements (fst (frame now a (m, pk))))
         = insert ''parkour-complete'' (set (achievements m))
     \<and> \<not> running (snd (frame now a (m, pk)))
     \<and> \<not> frame_requested (snd (frame now a (m, pk)))
     \<and> (\<forall>fs. run_frames fs (frame now a (m, pk)) = frame now a (m, pk))"
proof -
  let ?pk = "pk\<lparr>frame_requested := False\<rparr>"
  have fr: "frame now a (m, pk) = step now a (m, ?pk)"
    using assms(1) by (simp add: frame_def)
  have aw: "at_win_check now a (m, ?pk) = at_win_check now a (m, pk)"
    by (simp add: at_win_check_def at_fall_check_def)
  have af: "at_fall_check now a (m, ?pk) = at_fall_check now a (m, pk)"
    by (simp add: at_fall_check_def)
  obtain m2 p2 where w: "at_win_check now a (m, pk) = (m2, p2)"
    by (cases "at_win_check now a (m, pk)")
  have e: "achievements m2 = achievements m" "m_xp m2 = m_xp m"
    using achievements_at_win_check [of now a "(m, pk)"] w by simp_all
  from assms(2) w have won: "p_x p2 > clientWidth a - 120" by simp
  let ?m6 = "tell (Render (js_round (p_x p2)) (js_round (p_y p2))) m2"
  let ?pk6 = "?pk\<lparr>last_tick := now, player := p2\<rparr>"
  have won6: "p_x (player ?pk6) > clientWidth a - 120" using won by simp
  note wc = win_check_won [OF won6, of ?m6]
  have st: "step now a (m, ?pk) = (fst (win_check a (?m6, ?pk6)), ?pk6\<lparr>running := False\<rparr>)"
    by (simp add: step_unfold Let_def aw w wc(3))
  have t: "\<exists>new. trace (fst (frame now a (m, pk))) = trace m @ new
            \<and> count_list new complete_note = 1
            \<and> count_list new master_note
                = (if ''parkour-complete'' \<in> set (achievements m) then 0 else 1)"
    unfolding fr trace_step
    using assms(2) by (simp add: aw af)
  have x: "m_xp (fst (frame now a (m, pk))) = min 100 (m_xp m + 15)"
    unfolding fr st using wc(1) by (simp add: tell_def e)
  have ac: "set (achievements (fst (frame now a (m, pk))))
         = insert ''parkour-complete'' (set (achievements m))"
    unfolding fr st using wc(2) by (simp add: tell_def e)
  have r: "\<not> running (snd (frame now a (m, pk)))" "\<not> frame_requested (snd (frame now a (m, pk)))"
    unfolding fr st by simp_all
  from r(2) have "\<forall>fs. run_frames fs (frame now a (m, pk)) = frame now a (m, pk)"
    by (simp add: run_frames_idle)
  with t x ac r show ?thesis by blast
qed

theorem win_completes_once_witness:
  "frame_requested finishing
   \<and> clientWidth arena0 - 120
       < p_x (snd (at_win_check 16.666 arena0 (holding ''d'' (module_init\<lparr>m_xp := 85\<rparr>), finishing)))
   \<and> m_xp (fst (frame 16.666 arena0 (holding ''d'' (module_init\<lparr>m_xp := 85\<rparr>), finishing))) = 100
   \<and> \<not> running (snd (frame 16.666 arena0 (holding ''d'' (module_init\<lparr>m_xp := 85\<rparr>), finishing)))"
proof -
  have h1: "frame_requested finishing" by code_simp
  have h2: "clientWidth arena0 - 120
       < p_x (snd (at_win_check 16.666 arena0 (holding ''d'' (module_init\<lparr>m_xp := 85\<rparr>), finishing)))"
    by code_simp
  have x: "m_xp (holding ''d'' (module_init\<lparr>m_xp := 85\<rparr>)) = 85" by code_simp
  from win_completes_once [OF h1 h2] h1 h2 show ?thesis
    by (simp add: x)
qed

text \<open>
  A second completion, with the achievement already there, unlocks nothing: no
  notification of the achievement and no sound \<open>achievement\<close>.
\<close>

theorem win_again_counterexample:
  "clientWidth arena0 - 120
       < p_x (snd (at_win_check 16.666 arena0
            (holding ''d'' (module_init\<lparr>achievements := [''parkour-complete'']\<rparr>), finishing)))
   \<and> trace (fst (frame 16.666 arena0
            (holding ''d'' (module_init\<lparr>achievements := [''parkour-complete'']\<rparr>), finishing)))
       = [Render 596 100, Notify ''Parkour Complete'' complete_msg, Play ''xp'', XpFill 75]
   \<and> achievements (fst (frame 16.666 arena0
            (holding ''d'' (module_init\<lparr>achievements := [''parkour-complete'']\<rparr>), finishing)))
       = [''parkour-complete'']"
  by code_simp

subsection \<open>Parkour: destroy\<close>

lemma destroy_idempotent: "destroy (destroy pk) = destroy pk"
  by (simp add: destroy_def)

lemma destroy_unsubscribes: "keyHandler down k (m, destroy pk) = (m, destroy pk)"
  by (simp add: keyHandler_def destroy_def)

text \<open>After \<open>destroy\<close> a frame never requests another one: at most one more tick runs.\<close>

lemma destroy_stops_requests:
  "\<not> frame_requested (snd (frame now a (m, destroy pk)))
   \<and> run_frames fs (frame now a (m, destroy pk)) = frame now a (m, destroy pk)"
proof -
  have "\<not> frame_requested (snd (frame now a (m, destroy pk)))"
    by (simp add: frame_def step_unfold Let_def win_check_def destroy_def)
  then show ?thesis by (simp add: run_frames_idle)
qed

text \<open>
  Claim C5 asks that no tick runs once \<open>destroy\<close> has returned. The frame that was
  requested before \<open>destroy\<close> still runs \<open>step\<close> in full: here \<open>destroy\<close> comes right
  after \<open>setupParkour\<close>, and the next frame moves the body, lands it on the first
  platform, draws it and sets \<open>last\<close>.
\<close>

theorem destroy_then_frame_ticks:
  "setupParkour 0 (Some arena0) = Some fresh
   \<and> \<not> running (destroy fresh)
   \<and> trace (fst (frame 16.666 arena0 (module_init, destroy fresh))) = [Render 20 272]
   \<and> snd (frame 16.666 arena0 (module_init, destroy fresh))
       = (destroy fresh)\<lparr>player := (spawn 320)\<lparr>onGround := True\<rparr>, last_tick := 16.666,
             frame_requested := False\<rparr>"
  by code_simp

subsection \<open>The toast queue\<close>

lemma processToastQueue_busy: "isShowingToast u \<Longrightarrow> processToastQueue u = u"
  by (simp add: processToastQueue_def split: list.splits)

lemma processToastQueue_empty: "toastQueue u = [] \<Longrightarrow> processToastQueue u = u"
  by (simp add: processToastQueue_def)

lemma processToastQueue_next:
  "\<not> isShowingToast u \<Longrightarrow> toastQueue u = x # rest \<Longrightarrow>
   processToastQueue u =
     u\<lparr>toastQueue := rest, isShowingToast := True,
       container := container u @ [\<lparr>el_key = created u, el_toast = x, el_class = Showing\<rparr>],
       pending := pending u @ [(clock u + 500, OnComplete (created u))],
       created := Suc (created u),
       history := history u @ [(clock u, created u, Appeared x)]\<rparr>"
  by (simp add: processToastQueue_def Let_def arm_def chronicle_def)

lemma appeared_append [simp]: "appeared (h @ g) = appeared h @ appeared g"
  by (induction h rule: appeared.induct) simp_all

lemma tick_none: "pending u = [] \<Longrightarrow> tick u = u\<lparr>clock := Suc (clock u)\<rparr>"
  by (simp add: tick_def Let_def)

lemma tick_single:
  "pending u = [(d, cb)] \<Longrightarrow>
   tick u = (if d \<le> Suc (clock u) then fire cb (u\<lparr>clock := Suc (clock u), pending := []\<rparr>)
             else u\<lparr>clock := Suc (clock u)\<rparr>)"
  by (simp add: tick_def Let_def)

text \<open>A new element appears on an empty stage.\<close>

lemma timed_appear:
  assumes t: "timed [] h"
    and prev: "k = 0 \<or> (\<exists>t. t \<le> c \<and> (t, k - 1, Removed) \<in> set h)"
  shows "timed [(c + 500, OnComplete k)] (h @ [(c, k, Appeared x)])"
proof -
  have e: "\<exists>t0 y. (t0, j, Appeared y) \<in> set h \<and> t0 + 4000 \<le> c" if "k = Suc j" for j
  proof -
    from prev that obtain t where t1: "t \<le> c" "(t, j, Removed) \<in> set h" by auto
    with t obtain t2 where t2: "t = t2 + 500" "(t2, j, Dismissed) \<in> set h"
      unfolding timed_def by blast
    with t obtain t3 where t3: "t2 = t3 + 3000" "(t3, j, Completed) \<in> set h"
      unfolding timed_def by blast
    with t obtain t4 y where t4: "t3 = t4 + 500" "(t4, j, Appeared y) \<in> set h"
      unfolding timed_def by blast
    from t1 t2 t3 t4 show ?thesis by (intro exI [of _ t4] exI [of _ y]) simp
  qed
  show ?thesis
    using t e unfolding timed_def
    by (auto; blast)
qed

lemma timed_complete:
  assumes "timed [(t + 500, OnComplete k)] h" and "(t, k, Appeared x) \<in> set h"
  shows "timed [(t + 500 + 3000, HideToast k)] (h @ [(t + 500, k, Completed)])"
  using assms unfolding timed_def
  by (auto; blast)

lemma timed_dismiss:
  assumes "timed [(t + 3000, HideToast k)] h" and "(t, k, Completed) \<in> set h"
  shows "timed [(t + 3000 + 500, RemoveToast k)] (h @ [(t + 3000, k, Dismissed)])"
  using assms unfolding timed_def
  by (auto; blast)

lemma timed_remove:
  assumes "timed [(t + 500, RemoveToast k)] h" and "(t, k, Dismissed) \<in> set h"
  shows "timed [] (h @ [(t + 500, k, Removed)])"
  using assms unfolding timed_def
  by (auto; blast)

lemma busy_showing: "entering u \<or> displayed u \<or> dismissing u \<Longrightarrow> isShowingToast u"
  by (auto simp add: entering_def displayed_def dismissing_def)

lemma toast_inv_appear:
  assumes "pending u = []" and "\<not> isShowingToast u" and "container u = []"
    and "toastQueue u = x # rest"
    and "created u = 0 \<or> (\<exists>t. t \<le> clock u \<and> (t, created u - 1, Removed) \<in> set (history u))"
    and "timed [] (history u)" and "fifo u"
  shows "toast_inv (processToastQueue u)"
proof -
  let ?v = "processToastQueue u"
  note v = processToastQueue_next [OF assms(2,4)]
  have "entering ?v"
    unfolding entering_def v using assms(1,3)
    by (intro exI [of _ "created u"] exI [of _ "clock u"] exI [of _ x]) simp
  moreover have "timed (pending ?v) (history ?v)"
    unfolding v using timed_appear [OF assms(6), of "created u" "clock u" x] assms(1,5)
    by simp
  moreover have "fifo ?v"
    using assms(4,7) unfolding v fifo_def by simp
  ultimately show ?thesis by (simp add: toast_inv_def phase_def)
qed

lemma toast_inv_showToast:
  assumes "toast_inv u"
  shows "toast_inv (showToast a b u)"
proof (cases "idle u")
  case True
  let ?x = "\<lparr>toast_title = a, toast_description = b, toast_id = clock u\<rparr>"
  let ?u = "u\<lparr>toastQueue := toastQueue u @ [?x], requested := requested u @ [?x]\<rparr>"
  have "toast_inv (processToastQueue ?u)"
    using True assms
    by (intro toast_inv_appear [where x = ?x and rest = "[]"])
       (auto simp add: idle_def toast_inv_def fifo_def)
  then show ?thesis by (simp add: showToast_def Let_def)
next
  case False
  with assms have b: "entering u \<or> displayed u \<or> dismissing u"
    by (auto simp add: toast_inv_def phase_def)
  then have s: "isShowingToast u" by (rule busy_showing)
  let ?x = "\<lparr>toast_title = a, toast_description = b, toast_id = clock u\<rparr>"
  have e: "showToast a b u = u\<lparr>toastQueue := toastQueue u @ [?x], requested := requested u @ [?x]\<rparr>"
    using s by (simp add: showToast_def Let_def processToastQueue_busy)
  have "phase (showToast a b u)"
    using b unfolding e phase_def entering_def displayed_def dismissing_def by auto
  moreover have "timed (pending (showToast a b u)) (history (showToast a b u))"
    using assms unfolding e by (simp add: toast_inv_def)
  moreover have "fifo (showToast a b u)"
    using assms unfolding e by (simp add: toast_inv_def fifo_def)
  ultimately show ?thesis by (simp add: toast_inv_def)
qed

lemma toast_inv_tick_idle:
  assumes "toast_inv u" and "idle u"
  shows "toast_inv (tick u)"
proof -
  from assms(2) have p: "pending u = []" by (simp add: idle_def)
  have "idle (tick u)"
    using assms(2) unfolding tick_none [OF p] idle_def by auto
  with assms(1) show ?thesis
    unfolding tick_none [OF p] by (simp add: toast_inv_def phase_def fifo_def)
qed

lemma toast_inv_tick_entering:
  assumes "toast_inv u" and "entering u"
  shows "toast_inv (tick u)"
proof -
  from assms(2) obtain k t x where
    e: "created u = Suc k" "isShowingToast u"
       "container u = [\<lparr>el_key = k, el_toast = x, el_class = Showing\<rparr>]"
       "pending u = [(t + 500, OnComplete k)]" "clock u < t + 500"
       "(t, k, Appeared x) \<in> set (history u)"
    unfolding entering_def by blast
  from assms(1) have tm: "timed [(t + 500, OnComplete k)] (history u)" and ff: "fifo u"
    by (simp_all add: toast_inv_def e)
  show ?thesis
  proof (cases "t + 500 \<le> Suc (clock u)")
    case False
    then have v: "tick u = u\<lparr>clock := Suc (clock u)\<rparr>"
      by (simp add: tick_single [OF e(4)])
    have "entering (tick u)"
      unfolding v entering_def using e False
      by (intro exI [of _ k] exI [of _ t] exI [of _ x]) simp
    with tm ff show ?thesis
      unfolding v by (simp add: toast_inv_def phase_def fifo_def e)
  next
    case True
    with e(5) have c: "Suc (clock u) = t + 500" by simp
    have v: "tick u = u\<lparr>clock := t + 500, pending := [(t + 500 + 3000, HideToast k)],
                 history := history u @ [(t + 500, k, Completed)]\<rparr>"
      using True by (simp add: tick_single [OF e(4)] arm_def chronicle_def c)
    have "displayed (tick u)"
      unfolding v displayed_def using e
      by (intro exI [of _ k] exI [of _ "t + 500"] exI [of _ x]) simp
    moreover have "timed (pending (tick u)) (history (tick u))"
      unfolding v using timed_complete [OF tm e(6)] by simp
    moreover have "fifo (tick u)"
      using ff unfolding v fifo_def by simp
    ultimately show ?thesis by (simp add: toast_inv_def phase_def)
  qed
qed

lemma toast_inv_tick_displayed:
  assumes "toast_inv u" and "displayed u"
  shows "toast_inv (tick u)"
proof -
  from assms(2) obtain k t x where
    e: "created u = Suc k" "isShowingToast u"
       "container u = [\<lparr>el_key = k, el_toast = x, el_class = Showing\<rparr>]"
       "pending u = [(t + 3000, HideToast k)]" "clock u < t + 3000"
       "(t, k, Completed) \<in> set (history u)"
    unfolding displayed_def by blast
  from assms(1) have tm: "timed [(t + 3000, HideToast k)] (history u)" and ff: "fifo u"
    by (simp_all add: toast_inv_def e)
  show ?thesis
  proof (cases "t + 3000 \<le> Suc (clock u)")
    case False
    then have v: "tick u = u\<lparr>clock := Suc (clock u)\<rparr>"
      by (simp add: tick_single [OF e(4)])
    have "displayed (tick u)"
      unfolding v displayed_def using e False
      by (intro exI [of _ k] exI [of _ t] exI [of _ x]) simp
    with tm ff show ?thesis
      unfolding v by (simp add: toast_inv_def phase_def fifo_def e)
  next
    case True
    with e(5) have c: "Suc (clock u) = t + 3000" by simp
    have v: "tick u = u\<lparr>clock := t + 3000, pending := [(t + 3000 + 500, RemoveToast k)],
                 container := [\<lparr>el_key = k, el_toast = x, el_class = Hiding\<rparr>],
                 history := history u @ [(t + 3000, k, Dismissed)]\<rparr>"
      using True by (simp add: tick_single [OF e(4)] arm_def chronicle_def c e(3))
    have "dismissing (tick u)"
      unfolding v dismissing_def using e
      by (intro exI [of _ k] exI [of _ "t + 3000"] exI [of _ x]) simp
    moreover have "timed (pending (tick u)) (history (tick u))"
      unfolding v using timed_dismiss [OF tm e(6)] by simp
    moreover have "fifo (tick u)"
      using ff unfolding v fifo_def by simp
    ultimately show ?thesis by (simp add: toast_inv_def phase_def)
  qed
qed

lemma toast_inv_tick_dismissing:
  assumes "toast_inv u" and "dismissing u"
  shows "toast_inv (tick u)"
proof -
  from assms(2) obtain k t x where
    e: "created u = Suc k" "isShowingToast u"
       "container u = [\<lparr>el_key = k, el_toast = x, el_class = Hiding\<rparr>]"
       "pending u = [(t + 500, RemoveToast k)]" "clock u < t + 500"
       "(t, k, Dismissed) \<in> set (history u)"
    unfolding dismissing_def by blast
  from assms(1) have tm: "timed [(t + 500, RemoveToast k)] (history u)" and ff: "fifo u"
    by (simp_all add: toast_inv_def e)
  show ?thesis
  proof (cases "t + 500 \<le> Suc (clock u)")
    case False
    then have v: "tick u = u\<lparr>clock := Suc (clock u)\<rparr>"
      by (simp add: tick_single [OF e(4)])
    have "dismissing (tick u)"
      unfolding v dismissing_def using e False
      by (intro exI [of _ k] exI [of _ t] exI [of _ x]) simp
    with tm ff show ?thesis
      unfolding v by (simp add: toast_inv_def phase_def fifo_def e)
  next
    case True
    with e(5) have c: "Suc (clock u) = t + 500" by simp
    define w where "w = u\<lparr>clock := t + 500, pending := [], container := [],
        history := history u @ [(t + 500, k, Removed)], isShowingToast := False\<rparr>"
    have v: "tick u = processToastQueue w"
      using True by (simp add: tick_single [OF e(4)] chronicle_def c e(3) w_def)
    have tw: "timed [] (history w)"
      using timed_remove [OF tm e(6)] by (simp add: w_def)
    have fw: "fifo w" using ff by (simp add: fifo_def w_def)
    show ?thesis
    proof (cases "toastQueue w")
      case Nil
      then have "processToastQueue w = w" by (rule processToastQueue_empty)
      moreover have "idle w"
        using Nil e(1) unfolding idle_def
        by (auto simp add: w_def intro!: exI [of _ "t + 500"])
      ultimately show ?thesis
        using tw fw unfolding v by (simp add: toast_inv_def phase_def w_def)
    next
      case (Cons y rest)
      show ?thesis
        unfolding v using Cons tw fw e(1)
        by (intro toast_inv_appear [where x = y and rest = rest])
           (auto simp add: w_def intro!: exI [of _ "t + 500"])
    qed
  qed
qed

lemma toast_inv_tick: "toast_inv u \<Longrightarrow> toast_inv (tick u)"
  using toast_inv_tick_idle toast_inv_tick_entering toast_inv_tick_displayed
    toast_inv_tick_dismissing
  unfolding toast_inv_def phase_def by blast

lemma toast_inv_ticks: "toast_inv u \<Longrightarrow> toast_inv ((tick ^^ n) u)"
  by (induction n) (simp_all add: toast_inv_tick)

lemma toast_inv_occur: "toast_inv u \<Longrightarrow> toast_inv (occur u e)"
  by (cases e) (simp_all add: toast_inv_showToast toast_inv_tick toast_inv_ticks)

lemma toast_inv_init: "toast_inv ui_init"
  by (simp add: toast_inv_def phase_def idle_def timed_def fifo_def ui_init_def)

lemma toast_inv_foldl: "toast_inv u \<Longrightarrow> toast_inv (foldl occur u evs)"
  by (induction evs arbitrary: u) (simp_all add: toast_inv_occur)

lemma toast_inv_run: "toast_inv (run evs ui_init)"
  unfolding run_def by (rule toast_inv_foldl [OF toast_inv_init])

lemma tick_quiet:
  "\<forall>p\<in>set (pending u). Suc (clock u) < fst p \<Longrightarrow> tick u = u\<lparr>clock := Suc (clock u)\<rparr>"
proof -
  assume a: "\<forall>p\<in>set (pending u). Suc (clock u) < fst p"
  then have "filter (\<lambda>p. fst p \<le> Suc (clock u)) (pending u) = []"
    by (auto simp add: filter_empty_conv)
  moreover from a have "filter (\<lambda>p. \<not> fst p \<le> Suc (clock u)) (pending u) = pending u"
    by (auto simp add: filter_id_conv)
  ultimately show ?thesis by (simp add: tick_def Let_def)
qed

lemma ticks_quiet:
  "\<forall>p\<in>set (pending u). clock u + n < fst p \<Longrightarrow> (tick ^^ n) u = u\<lparr>clock := clock u + n\<rparr>"
proof (induction n)
  case 0
  show ?case by simp
next
  case (Suc n)
  from Suc.prems have "\<forall>p\<in>set (pending u). clock u + n < fst p"
    by (auto dest: bspec)
  then have "(tick ^^ n) u = u\<lparr>clock := clock u + n\<rparr>" by (rule Suc.IH)
  moreover have "tick (u\<lparr>clock := clock u + n\<rparr>) = u\<lparr>clock := Suc (clock u + n)\<rparr>"
    using Suc.prems tick_quiet [of "u\<lparr>clock := clock u + n\<rparr>"] by simp
  ultimately show ?case by simp
qed

lemma two_toasts_run:
  "history (run two_toasts ui_init) =
     [(0, 0, Appeared \<lparr>toast_title = ''A'', toast_description = ''a'', toast_id = 0\<rparr>),
      (500, 0, Completed), (3500, 0, Dismissed), (4000, 0, Removed),
      (4000, 1, Appeared \<lparr>toast_title = ''B'', toast_description = ''b'', toast_id = 0\<rparr>)]"
  by (simp add: two_toasts_def run_def showToast_def processToastQueue_def ticks_quiet tick_def
        arm_def chronicle_def ui_init_def Let_def)

lemma phase_due: "phase u \<Longrightarrow> (d, cb) \<in> set (pending u) \<Longrightarrow> clock u < d"
  by (auto simp add: phase_def idle_def entering_def displayed_def dismissing_def)

lemma phase_container:
  "phase u \<Longrightarrow> length (container u) \<le> 1 \<and> (isShowingToast u \<longleftrightarrow> container u \<noteq> [])"
  by (auto simp add: phase_def idle_def entering_def displayed_def dismissing_def)

lemma phase_showing: "phase u \<Longrightarrow> isShowingToast u \<Longrightarrow> entering u \<or> displayed u \<or> dismissing u"
  by (auto simp add: phase_def idle_def)

text \<open>
  Claim C1, for \<open>UIManager.showToast\<close>. After any sequence of requests and passing
  milliseconds, the container holds at most one toast element, and holds one exactly when
  \<open>isShowingToast\<close> is set; the toasts that have appeared so far, in the order they
  appeared, followed by the toasts still waiting, are the toasts requested, in the order
  of the requests; and a request made while a toast is showing only adds the new toast
  at the end of the queue, the element shown and its armed callback staying as they are.
\<close>

theorem toast_queue_single_fifo:
  "length (container (run evs ui_init)) \<le> 1
   \<and> (isShowingToast (run evs ui_init) \<longleftrightarrow> container (run evs ui_init) \<noteq> [])
   \<and> appeared (history (run evs ui_init)) @ toastQueue (run evs ui_init)
       = requested (run evs ui_init)
   \<and> (isShowingToast (run evs ui_init) \<longrightarrow>
        (\<forall>a b. showToast a b (run evs ui_init)
           = (run evs ui_init)
               \<lparr>toastQueue := toastQueue (run evs ui_init)
                    @ [\<lparr>toast_title = a, toast_description = b,
                        toast_id = clock (run evs ui_init)\<rparr>],
                requested := requested (run evs ui_init)
                    @ [\<lparr>toast_title = a, toast_description = b,
                        toast_id = clock (run evs ui_init)\<rparr>]\<rparr>))"
proof -
  define u where "u = run evs ui_init"
  have i: "toast_inv u" unfolding u_def by (rule toast_inv_run)
  then have p: "phase u" and f: "fifo u" by (simp_all add: toast_inv_def)
  from phase_container [OF p] f show ?thesis
    unfolding u_def [symmetric]
    by (simp add: fifo_def showToast_def Let_def processToastQueue_busy)
qed

theorem toast_queue_single_fifo_witness:
  "isShowingToast (run [Call ''A'' ''a''] ui_init)
   \<and> container (showToast ''B'' ''b'' (run [Call ''A'' ''a''] ui_init))
       = container (run [Call ''A'' ''a''] ui_init)
   \<and> length (container (run [Call ''A'' ''a'', Call ''B'' ''b''] ui_init)) = 1"
proof -
  have h: "isShowingToast (run [Call ''A'' ''a''] ui_init)" by code_simp
  have l: "length (container (run [Call ''A'' ''a'', Call ''B'' ''b''] ui_init)) = 1" by code_simp
  from toast_queue_single_fifo [of "[Call ''A'' ''a'']"] h l show ?thesis by simp
qed

text \<open>
  The module's \<open>createToast\<close> does not queue: two calls in a row leave two toasts in
  \<open>toastWrap\<close> at once, the later one on top.
\<close>

theorem createToast_stacks_counterexample:
  "map node_title
     (wrap (createToast True ''B'' ''b'' None (createToast True ''A'' ''a'' None stack_init)))
     = [''B'', ''A'']
   \<and> length (wrap (createToast True ''B'' ''b'' None (createToast True ''A'' ''a'' None stack_init)))
     = 2"
  by (simp add: createToast_def stack_init_def Let_def)

lemma staged_appear:
  assumes "off_stage w" and "toastQueue w = x # rest"
  shows "staged (processToastQueue w)"
proof -
  from assms(1) have n: "\<not> isShowingToast w" by (simp add: off_stage_def)
  note v = processToastQueue_next [OF n assms(2)]
  have "on_stage (processToastQueue w) (clock w) (created w) x Showing"
    using assms(1) unfolding v on_stage_def off_stage_def by auto
  moreover have "pending (processToastQueue w) = [(clock w + 500, OnComplete (created w))]"
    using assms(1) unfolding v off_stage_def by simp
  moreover have "clock (processToastQueue w) = clock w" unfolding v by simp
  moreover have "\<forall>t k y. (t, k, Appeared y) \<in> set (history (processToastQueue w)) \<longrightarrow>
        k < created (processToastQueue w)
        \<and> (Suc k < created (processToastQueue w) \<longrightarrow> t + 4000 \<le> clock (processToastQueue w))"
    using assms(1) unfolding v off_stage_def by (auto; meson less_SucI)
  ultimately show ?thesis
    unfolding staged_def by (intro conjI disjI2 disjI1 exI [of _ "clock w"] exI [of _ "created w"] exI [of _ x]) simp_all
qed

lemma staged_off: "off_stage w \<Longrightarrow> staged w"
  by (auto simp add: staged_def off_stage_def)

lemma staged_showToast:
  assumes "staged u"
  shows "staged (showToast a b u)"
proof (cases "isShowingToast u")
  case True
  let ?x = "\<lparr>toast_title = a, toast_description = b, toast_id = clock u\<rparr>"
  have e: "showToast a b u = u\<lparr>toastQueue := toastQueue u @ [?x], requested := requested u @ [?x]\<rparr>"
    using True by (simp add: showToast_def Let_def processToastQueue_busy)
  from assms True show ?thesis
    unfolding e staged_def on_stage_def off_stage_def by simp
next
  case False
  let ?x = "\<lparr>toast_title = a, toast_description = b, toast_id = clock u\<rparr>"
  let ?w = "u\<lparr>toastQueue := toastQueue u @ [?x], requested := requested u @ [?x]\<rparr>"
  from assms False have o: "off_stage u"
    unfolding staged_def on_stage_def by auto
  then have ow: "off_stage ?w" by (simp add: off_stage_def)
  obtain y rest where q: "toastQueue ?w = y # rest"
    by (cases "toastQueue u") simp_all
  from staged_appear [OF ow q] show ?thesis by (simp add: showToast_def Let_def)
qed


lemma staged_tick:
  assumes "staged u"
  shows "staged (tick u)"
proof -
  from assms have old: "\<forall>t k x. (t, k, Appeared x) \<in> set (history u) \<longrightarrow>
        k < created u \<and> (Suc k < created u \<longrightarrow> t + 4000 \<le> clock u)"
    by (simp add: staged_def)
  from assms consider
      (off) "off_stage u"
    | (entering) a k x where "on_stage u a k x Showing" "pending u = [(a + 500, OnComplete k)]"
        "a \<le> clock u" "clock u < a + 500"
    | (displayed) a k x where "on_stage u a k x Showing" "pending u = [(a + 3500, HideToast k)]"
        "a + 500 \<le> clock u" "clock u < a + 3500"
    | (dismissing) a k x where "on_stage u a k x Hiding" "pending u = [(a + 4000, RemoveToast k)]"
        "a + 3500 \<le> clock u" "clock u < a + 4000"
    unfolding staged_def by blast
  then show ?thesis
  proof cases
    case off
    then have p: "pending u = []" by (simp add: off_stage_def)
    have "off_stage (tick u)"
      using off unfolding tick_none [OF p] off_stage_def by (auto; force)
    then show ?thesis by (rule staged_off)
  next
    case entering
    show ?thesis
    proof (cases "a + 500 \<le> Suc (clock u)")
      case False
      then have v: "tick u = u\<lparr>clock := Suc (clock u)\<rparr>"
        by (simp add: tick_single [OF entering(2)])
      have "on_stage (tick u) a k x Showing"
        using entering(1) unfolding v on_stage_def by simp
      moreover have "\<forall>t k x. (t, k, Appeared x) \<in> set (history (tick u)) \<longrightarrow>
          k < created (tick u) \<and> (Suc k < created (tick u) \<longrightarrow> t + 4000 \<le> clock (tick u))"
        using old unfolding v by (auto; force)
      ultimately show ?thesis
        unfolding staged_def using entering(2,3) False
        by (intro conjI disjI2 disjI1 exI [of _ a] exI [of _ k] exI [of _ x]) (simp_all add: v)
    next
      case True
      with entering(4) have c: "Suc (clock u) = a + 500" by simp
      have v: "tick u = u\<lparr>clock := a + 500, pending := [(a + 500 + 3000, HideToast k)],
                   history := history u @ [(a + 500, k, Completed)]\<rparr>"
        using True by (simp add: tick_single [OF entering(2)] arm_def chronicle_def c)
      have "on_stage (tick u) a k x Showing"
        using entering(1) unfolding v on_stage_def by simp
      moreover have "\<forall>t k x. (t, k, Appeared x) \<in> set (history (tick u)) \<longrightarrow>
          k < created (tick u) \<and> (Suc k < created (tick u) \<longrightarrow> t + 4000 \<le> clock (tick u))"
        using old c unfolding v by (auto; force)
      ultimately show ?thesis
        unfolding staged_def
        by (intro conjI disjI2 disjI1 exI [of _ a] exI [of _ k] exI [of _ x]) (simp_all add: v)
    qed
  next
    case displayed
    show ?thesis
    proof (cases "a + 3500 \<le> Suc (clock u)")
      case False
      then have v: "tick u = u\<lparr>clock := Suc (clock u)\<rparr>"
        by (simp add: tick_single [OF displayed(2)])
      have "on_stage (tick u) a k x Showing"
        using displayed(1) unfolding v on_stage_def by simp
      moreover have "\<forall>t k x. (t, k, Appeared x) \<in> set (history (tick u)) \<longrightarrow>
          k < created (tick u) \<and> (Suc k < created (tick u) \<longrightarrow> t + 4000 \<le> clock (tick u))"
        using old unfolding v by (auto; force)
      ultimately show ?thesis
        unfolding staged_def using displayed(2,3) False
        by (intro conjI disjI2 disjI1 exI [of _ a] exI [of _ k] exI [of _ x]) (simp_all add: v)
    next
      case True
      with displayed(4) have c: "Suc (clock u) = a + 3500" by simp
      from displayed(1) have ct: "container u = [\<lparr>el_key = k, el_toast = x, el_class = Showing\<rparr>]"
        by (simp add: on_stage_def)
      have v: "tick u = u\<lparr>clock := a + 3500, pending := [(a + 3500 + 500, RemoveToast k)],
                   container := [\<lparr>el_key = k, el_toast = x, el_class = Hiding\<rparr>],
                   history := history u @ [(a + 3500, k, Dismissed)]\<rparr>"
        using True by (simp add: tick_single [OF displayed(2)] arm_def chronicle_def c ct)
      have "on_stage (tick u) a k x Hiding"
        using displayed(1) unfolding v on_stage_def by simp
      moreover have "\<forall>t k x. (t, k, Appeared x) \<in> set (history (tick u)) \<longrightarrow>
          k < created (tick u) \<and> (Suc k < created (tick u) \<longrightarrow> t + 4000 \<le> clock (tick u))"
        using old c unfolding v by (auto; force)
      ultimately show ?thesis
        unfolding staged_def
        by (intro conjI disjI2 exI [of _ a] exI [of _ k] exI [of _ x]) (simp_all add: v)
    qed
  next
    case dismissing
    show ?thesis
    proof (cases "a + 4000 \<le> Suc (clock u)")
      case False
      then have v: "tick u = u\<lparr>clock := Suc (clock u)\<rparr>"
        by (simp add: tick_single [OF dismissing(2)])
      have "on_stage (tick u) a k x Hiding"
        using dismissing(1) unfolding v on_stage_def by simp
      moreover have "\<forall>t k x. (t, k, Appeared x) \<in> set (history (tick u)) \<longrightarrow>
          k < created (tick u) \<and> (Suc k < created (tick u) \<longrightarrow> t + 4000 \<le> clock (tick u))"
        using old unfolding v by (auto; force)
      ultimately show ?thesis
        unfolding staged_def using dismissing(2,3) False
        by (intro conjI disjI2 exI [of _ a] exI [of _ k] exI [of _ x]) (simp_all add: v)
    next
      case True
      with dismissing(4) have c: "Suc (clock u) = a + 4000" by simp
      from dismissing(1) have ct: "container u = [\<lparr>el_key = k, el_toast = x, el_class = Hiding\<rparr>]"
        and cr: "created u = Suc k"
        and un: "\<forall>t y. (t, k, Appeared y) \<in> set (history u) \<longrightarrow> t = a \<and> y = x"
        by (simp_all add: on_stage_def)
      define w where "w = u\<lparr>clock := a + 4000, pending := [], container := [],
          history := history u @ [(a + 4000, k, Removed)], isShowingToast := False\<rparr>"
      have v: "tick u = processToastQueue w"
        using True by (simp add: tick_single [OF dismissing(2)] chronicle_def c ct w_def)
      have ow: "off_stage w"
        unfolding off_stage_def
      proof (intro conjI allI impI)
        fix t j y assume "(t, j, Appeared y) \<in> set (history w)"
        then have h: "(t, j, Appeared y) \<in> set (history u)" by (simp add: w_def)
        with old have j: "j < created u" "Suc j < created u \<longrightarrow> t + 4000 \<le> clock u" by blast+
        from j(1) show "j < created w" by (simp add: w_def)
        show "t + 4000 \<le> clock w"
        proof (cases "Suc j < created u")
          case True
          with j(2) c show ?thesis by (simp add: w_def)
        next
          case False
          with j(1) cr have "j = k" by simp
          with h un have "t = a" by blast
          then show ?thesis by (simp add: w_def)
        qed
      qed (simp_all add: w_def)
      show ?thesis
      proof (cases "toastQueue w")
        case Nil
        then have "processToastQueue w = w" by (rule processToastQueue_empty)
        with ow show ?thesis unfolding v by (simp add: staged_off)
      next
        case (Cons y rest)
        from staged_appear [OF ow Cons] show ?thesis unfolding v .
      qed
    qed
  qed
qed

lemma staged_ticks: "staged u \<Longrightarrow> staged ((tick ^^ n) u)"
  by (induction n) (simp_all add: staged_tick)

lemma staged_occur: "staged u \<Longrightarrow> staged (occur u e)"
  by (cases e) (simp_all add: staged_showToast staged_tick staged_ticks)

lemma staged_init: "staged ui_init"
  by (simp add: staged_def off_stage_def ui_init_def)

lemma staged_foldl: "staged u \<Longrightarrow> staged (foldl occur u evs)"
  by (induction evs arbitrary: u) (simp_all add: staged_occur)

lemma staged_run: "staged (run evs ui_init)"
  unfolding run_def by (rule staged_foldl [OF staged_init])

lemma staged_cases:
  assumes "staged u"
  obtains (off) "off_stage u"
    | (showing) a k x where "on_stage u a k x Showing" "clock u < a + 3500"
    | (hiding) a k x where "on_stage u a k x Hiding" "a + 3500 \<le> clock u" "clock u < a + 4000"
proof -
  from assms have "off_stage u
        \<or> (\<exists>a k x. on_stage u a k x Showing \<and> pending u = [(a + 500, OnComplete k)]
              \<and> a \<le> clock u \<and> clock u < a + 500)
        \<or> (\<exists>a k x. on_stage u a k x Showing \<and> pending u = [(a + 3500, HideToast k)]
              \<and> a + 500 \<le> clock u \<and> clock u < a + 3500)
        \<or> (\<exists>a k x. on_stage u a k x Hiding \<and> pending u = [(a + 4000, RemoveToast k)]
              \<and> a + 3500 \<le> clock u \<and> clock u < a + 4000)"
    by (simp add: staged_def)
  then show thesis
  proof (elim disjE exE conjE)
    assume "off_stage u" then show thesis by (rule off)
  next
    fix a k x assume "on_stage u a k x Showing" "clock u < a + 500"
    then show thesis by (intro showing [of a k x]) simp_all
  next
    fix a k x assume "on_stage u a k x Showing" "clock u < a + 3500"
    then show thesis by (rule showing)
  next
    fix a k x assume "on_stage u a k x Hiding" "a + 3500 \<le> clock u" "clock u < a + 4000"
    then show thesis by (rule hiding)
  qed
qed

lemma staged_appeared:
  assumes "staged u" and "(t, k, Appeared x) \<in> set (history u)"
  shows "(clock u < t + 3500 \<longrightarrow>
            container u = [\<lparr>el_key = k, el_toast = x, el_class = Showing\<rparr>])
       \<and> (t + 3500 \<le> clock u \<and> clock u < t + 4000 \<longrightarrow>
            container u = [\<lparr>el_key = k, el_toast = x, el_class = Hiding\<rparr>])
       \<and> (t + 4000 \<le> clock u \<longrightarrow> (\<forall>e\<in>set (container u). el_key e \<noteq> k))"
proof -
  from assms have old: "k < created u" "Suc k < created u \<longrightarrow> t + 4000 \<le> clock u"
    unfolding staged_def by blast+
  have other: "t + 4000 \<le> clock u \<and> (\<forall>e\<in>set (container u). el_key e \<noteq> k)"
    if "on_stage u a j y c" "j \<noteq> k" for a j y c
  proof -
    from that have cr: "created u = Suc j" and ct: "container u = [\<lparr>el_key = j, el_toast = y, el_class = c\<rparr>]"
      by (simp_all add: on_stage_def)
    from old(1) cr that(2) have "Suc k < created u" by simp
    with old(2) have "t + 4000 \<le> clock u" by simp
    with ct that(2) show ?thesis by simp
  qed
  have same: "t = a \<and> x = y \<and> container u = [\<lparr>el_key = k, el_toast = x, el_class = c\<rparr>]"
    if "on_stage u a k y c" for a y c
  proof -
    from that assms(2) have "t = a \<and> x = y" unfolding on_stage_def by blast
    with that show ?thesis by (simp add: on_stage_def)
  qed
  from assms(1) show ?thesis
  proof (cases rule: staged_cases)
    case off
    then have "container u = []" and "t + 4000 \<le> clock u"
      using assms(2) unfolding off_stage_def by blast+
    then show ?thesis by simp
  next
    case (showing a j y)
    show ?thesis
    proof (cases "j = k")
      case True
      with same [of a y Showing] showing have "t = a" "container u = [\<lparr>el_key = k, el_toast = x, el_class = Showing\<rparr>]"
        by simp_all
      with showing(2) show ?thesis by simp
    next
      case False
      from other [OF showing(1) False] show ?thesis by simp
    qed
  next
    case (hiding a j y)
    show ?thesis
    proof (cases "j = k")
      case True
      with same [of a y Hiding] hiding have "t = a" "container u = [\<lparr>el_key = k, el_toast = x, el_class = Hiding\<rparr>]"
        by simp_all
      with hiding(2,3) show ?thesis by simp
    next
      case False
      from other [OF hiding(1) False] show ?thesis by simp
    qed
  qed
qed

lemma staged_container:
  assumes "staged u" and "e \<in> set (container u)"
  shows "\<exists>t. (t, el_key e, Appeared (el_toast e)) \<in> set (history u)
           \<and> t \<le> clock u \<and> clock u < t + 4000
           \<and> el_class e = (if clock u < t + 3500 then Showing else Hiding)"
proof -
  from assms consider
      (entering) a k x where "on_stage u a k x Showing" "a \<le> clock u" "clock u < a + 500"
    | (displayed) a k x where "on_stage u a k x Showing" "a + 500 \<le> clock u" "clock u < a + 3500"
    | (dismissing) a k x where "on_stage u a k x Hiding" "a + 3500 \<le> clock u" "clock u < a + 4000"
    unfolding staged_def off_stage_def by fastforce
  then show ?thesis
  proof cases
    case entering
    with assms(2) show ?thesis unfolding on_stage_def by (intro exI [of _ a]) auto
  next
    case displayed
    with assms(2) show ?thesis unfolding on_stage_def by (intro exI [of _ a]) auto
  next
    case dismissing
    with assms(2) show ?thesis unfolding on_stage_def by (intro exI [of _ a]) auto
  qed
qed

lemma history_processToastQueue: "set (history u) \<subseteq> set (history (processToastQueue u))"
  by (auto simp add: processToastQueue_def Let_def arm_def chronicle_def split: list.splits)

lemma history_fire: "set (history u) \<subseteq> set (history (fire cb u))"
proof (cases cb)
  case (RemoveToast k)
  have "set (history u) \<subseteq> set (history ((chronicle k Removed
           (u\<lparr>container := filter (\<lambda>e. el_key e \<noteq> k) (container u)\<rparr>))\<lparr>isShowingToast := False\<rparr>))"
    by (auto simp add: chronicle_def)
  with history_processToastQueue show ?thesis
    unfolding RemoveToast fire.simps by blast
qed (auto simp add: arm_def chronicle_def)

lemma history_fires: "set (history u) \<subseteq> set (history (foldl (\<lambda>v p. fire (snd p) v) u ps))"
proof (induction ps arbitrary: u)
  case Nil
  show ?case by simp
next
  case (Cons p ps)
  from history_fire [of u "snd p"] Cons [of "fire (snd p) u"] show ?case by auto
qed

lemma history_tick: "set (history u) \<subseteq> set (history (tick u))"
  unfolding tick_def Let_def
  using history_fires [of "u\<lparr>clock := Suc (clock u),
      pending := filter (\<lambda>p. \<not> fst p \<le> Suc (clock u)) (pending u)\<rparr>"]
  by simp

lemma history_ticks: "set (history u) \<subseteq> set (history ((tick ^^ n) u))"
proof (induction n)
  case 0
  show ?case by simp
next
  case (Suc n)
  from Suc history_tick [of "(tick ^^ n) u"] show ?case by auto
qed

lemma history_showToast: "set (history u) \<subseteq> set (history (showToast a b u))"
  unfolding showToast_def Let_def
  using history_processToastQueue
    [of "u\<lparr>toastQueue := toastQueue u @ [\<lparr>toast_title = a, toast_description = b, toast_id = clock u\<rparr>],
          requested := requested u @ [\<lparr>toast_title = a, toast_description = b, toast_id = clock u\<rparr>]\<rparr>"]
  by simp

lemma history_occur: "set (history u) \<subseteq> set (history (occur u e))"
  by (cases e) (simp_all add: history_showToast history_tick history_ticks)

lemma history_foldl: "set (history u) \<subseteq> set (history (foldl occur u evs))"
proof (induction evs arbitrary: u)
  case Nil
  show ?case by simp
next
  case (Cons e evs)
  from history_occur [of u e] Cons [of "occur u e"] show ?case by auto
qed

lemma run_after_call:
  "run evs' (showToast a b (run evs ui_init)) = run (evs @ Call a b # evs') ui_init"
  by (simp add: run_def)

lemma showToast_appears:
  assumes "toast_inv u" and "\<not> isShowingToast u"
  shows "(clock u, created u, Appeared \<lparr>toast_title = a, toast_description = b, toast_id = clock u\<rparr>)
           \<in> set (history (showToast a b u))"
proof -
  from assms have "idle u"
    unfolding toast_inv_def phase_def using busy_showing by blast
  then have q: "toastQueue u = []" by (simp add: idle_def)
  show ?thesis
    using assms(2) q
    by (simp add: showToast_def Let_def processToastQueue_def arm_def chronicle_def)
qed

lemma shown_toast_lifetime:
  assumes "\<not> isShowingToast (run evs ui_init)"
  shows "(clock (run evs' (showToast a b (run evs ui_init))) < clock (run evs ui_init) + 3500 \<longrightarrow>
            container (run evs' (showToast a b (run evs ui_init)))
              = [\<lparr>el_key = created (run evs ui_init),
                   el_toast = \<lparr>toast_title = a, toast_description = b,
                                toast_id = clock (run evs ui_init)\<rparr>,
                   el_class = Showing\<rparr>])
       \<and> (clock (run evs ui_init) + 3500 \<le> clock (run evs' (showToast a b (run evs ui_init)))
            \<and> clock (run evs' (showToast a b (run evs ui_init))) < clock (run evs ui_init) + 4000 \<longrightarrow>
            container (run evs' (showToast a b (run evs ui_init)))
              = [\<lparr>el_key = created (run evs ui_init),
                   el_toast = \<lparr>toast_title = a, toast_description = b,
                                toast_id = clock (run evs ui_init)\<rparr>,
                   el_class = Hiding\<rparr>])
       \<and> (clock (run evs ui_init) + 4000 \<le> clock (run evs' (showToast a b (run evs ui_init))) \<longrightarrow>
            (\<forall>e\<in>set (container (run evs' (showToast a b (run evs ui_init)))).
               el_key e \<noteq> created (run evs ui_init)))"
proof -
  define u where "u = run evs ui_init"
  define v where "v = run evs' (showToast a b u)"
  have "toast_inv u" unfolding u_def by (rule toast_inv_run)
  from showToast_appears [OF this, of a b] assms
  have "(clock u, created u, Appeared \<lparr>toast_title = a, toast_description = b, toast_id = clock u\<rparr>)
           \<in> set (history (showToast a b u))"
    by (simp add: u_def)
  with history_foldl [of "showToast a b u" evs']
  have h: "(clock u, created u, Appeared \<lparr>toast_title = a, toast_description = b, toast_id = clock u\<rparr>)
           \<in> set (history v)"
    unfolding v_def run_def by blast
  have "staged v"
    unfolding v_def u_def run_after_call by (rule staged_run)
  from staged_appeared [OF this h] show ?thesis
    unfolding v_def u_def by simp
qed

lemma two_toasts_state:
  "clock (run two_toasts ui_init) = 4000
   \<and> container (run two_toasts ui_init)
       = [\<lparr>el_key = Suc 0,
           el_toast = \<lparr>toast_title = ''B'', toast_description = ''b'', toast_id = 0\<rparr>,
           el_class = Showing\<rparr>]"
  by (simp add: two_toasts_def run_def showToast_def processToastQueue_def ticks_quiet tick_def
        arm_def chronicle_def ui_init_def Let_def)

text \<open>
  Claim C7, amended. A toast is visible, its element in the container with class
  \<open>showing\<close>, from the moment it is taken off the queue. Its display timer of 3000 ms is
  armed when the entrance animation of 500 ms is complete, so the element turns from
  \<open>showing\<close> to \<open>hiding\<close> 3500 ms after it appeared, not 3000; it is removed a fixed 500 ms
  after that, and the callback that removes it runs \<open>processToastQueue\<close> again, which shows
  the head of a queue that is not empty at that very time. Consequently a toast appears
  no earlier than 4000 ms, hence no earlier than 3000 + 500 ms, after the toast before
  it appeared. This is said three times over: of the container of any run, from the
  time an element appeared and from the element that is there; of a toast requested when
  none is showing, in terms of the clock alone; and of the entries of the history.
\<close>

theorem toast_timing:
  "(\<forall>t k x. (t, k, Appeared x) \<in> set (history (run evs ui_init)) \<longrightarrow>
       (clock (run evs ui_init) < t + 500 + 3000 \<longrightarrow>
          container (run evs ui_init) = [\<lparr>el_key = k, el_toast = x, el_class = Showing\<rparr>])
       \<and> (t + 500 + 3000 \<le> clock (run evs ui_init)
            \<and> clock (run evs ui_init) < t + 500 + 3000 + 500 \<longrightarrow>
          container (run evs ui_init) = [\<lparr>el_key = k, el_toast = x, el_class = Hiding\<rparr>])
       \<and> (t + 500 + 3000 + 500 \<le> clock (run evs ui_init) \<longrightarrow>
          (\<forall>e\<in>set (container (run evs ui_init)). el_key e \<noteq> k)))
   \<and> (\<forall>e\<in>set (container (run evs ui_init)).
        \<exists>t. (t, el_key e, Appeared (el_toast e)) \<in> set (history (run evs ui_init))
          \<and> t \<le> clock (run evs ui_init) \<and> clock (run evs ui_init) < t + 500 + 3000 + 500
          \<and> el_class e = (if clock (run evs ui_init) < t + 500 + 3000 then Showing else Hiding))
   \<and> (\<forall>a b evs'. \<not> isShowingToast (run evs ui_init) \<longrightarrow>
        (clock (run evs' (showToast a b (run evs ui_init))) < clock (run evs ui_init) + 3500 \<longrightarrow>
            container (run evs' (showToast a b (run evs ui_init)))
              = [\<lparr>el_key = created (run evs ui_init),
                   el_toast = \<lparr>toast_title = a, toast_description = b,
                                toast_id = clock (run evs ui_init)\<rparr>,
                   el_class = Showing\<rparr>])
       \<and> (clock (run evs ui_init) + 3500 \<le> clock (run evs' (showToast a b (run evs ui_init)))
            \<and> clock (run evs' (showToast a b (run evs ui_init))) < clock (run evs ui_init) + 4000 \<longrightarrow>
            container (run evs' (showToast a b (run evs ui_init)))
              = [\<lparr>el_key = created (run evs ui_init),
                   el_toast = \<lparr>toast_title = a, toast_description = b,
                                toast_id = clock (run evs ui_init)\<rparr>,
                   el_class = Hiding\<rparr>])
       \<and> (clock (run evs ui_init) + 4000 \<le> clock (run evs' (showToast a b (run evs ui_init))) \<longrightarrow>
            (\<forall>e\<in>set (container (run evs' (showToast a b (run evs ui_init)))).
               el_key e \<noteq> created (run evs ui_init))))
   \<and> (\<forall>t k. (t, k, Completed) \<in> set (history (run evs ui_init)) \<longrightarrow>
       (\<exists>t0 x. t = t0 + 500 \<and> (t0, k, Appeared x) \<in> set (history (run evs ui_init))))
   \<and> (\<forall>t k x. (t, k, Appeared x) \<in> set (history (run evs ui_init))
          \<and> t + 500 \<le> clock (run evs ui_init) \<longrightarrow>
       (t + 500, k, Completed) \<in> set (history (run evs ui_init)))
   \<and> (\<forall>t k. (t, k, Dismissed) \<in> set (history (run evs ui_init)) \<longrightarrow>
       (\<exists>t0. t = t0 + 3000 \<and> (t0, k, Completed) \<in> set (history (run evs ui_init))))
   \<and> (\<forall>t k. (t, k, Completed) \<in> set (history (run evs ui_init))
          \<and> t + 3000 \<le> clock (run evs ui_init) \<longrightarrow>
       (t + 3000, k, Dismissed) \<in> set (history (run evs ui_init)))
   \<and> (\<forall>t k. (t, k, Removed) \<in> set (history (run evs ui_init)) \<longrightarrow>
       (\<exists>t0. t = t0 + 500 \<and> (t0, k, Dismissed) \<in> set (history (run evs ui_init))))
   \<and> (\<forall>t k. (t, k, Dismissed) \<in> set (history (run evs ui_init))
          \<and> t + 500 \<le> clock (run evs ui_init) \<longrightarrow>
       (t + 500, k, Removed) \<in> set (history (run evs ui_init)))
   \<and> (\<forall>k u x rest. toastQueue u = x # rest \<longrightarrow>
       fire (RemoveToast k) u =
         (u\<lparr>container := filter (\<lambda>e. el_key e \<noteq> k) (container u)
                @ [\<lparr>el_key = created u, el_toast = x, el_class = Showing\<rparr>],
            history := history u @ [(clock u, k, Removed), (clock u, created u, Appeared x)],
            isShowingToast := True, toastQueue := rest,
            pending := pending u @ [(clock u + 500, OnComplete (created u))],
            created := Suc (created u)\<rparr>))
   \<and> (\<forall>t k x. (t, Suc k, Appeared x) \<in> set (history (run evs ui_init)) \<longrightarrow>
       (\<exists>t0 y. (t0, k, Appeared y) \<in> set (history (run evs ui_init)) \<and> t0 + 4000 \<le> t))"
proof -
  define u where "u = run evs ui_init"
  have i: "toast_inv u" unfolding u_def by (rule toast_inv_run)
  then have p: "phase u" and t: "timed (pending u) (history u)" by (simp_all add: toast_inv_def)
  have st: "staged u" unfolding u_def by (rule staged_run)
  have s1: "\<forall>t k x. (t, k, Appeared x) \<in> set (history u) \<longrightarrow>
       (clock u < t + 500 + 3000 \<longrightarrow>
          container u = [\<lparr>el_key = k, el_toast = x, el_class = Showing\<rparr>])
       \<and> (t + 500 + 3000 \<le> clock u \<and> clock u < t + 500 + 3000 + 500 \<longrightarrow>
          container u = [\<lparr>el_key = k, el_toast = x, el_class = Hiding\<rparr>])
       \<and> (t + 500 + 3000 + 500 \<le> clock u \<longrightarrow> (\<forall>e\<in>set (container u). el_key e \<noteq> k))"
    using staged_appeared [OF st] by simp
  have s2: "\<forall>e\<in>set (container u).
        \<exists>t. (t, el_key e, Appeared (el_toast e)) \<in> set (history u)
          \<and> t \<le> clock u \<and> clock u < t + 500 + 3000 + 500
          \<and> el_class e = (if clock u < t + 500 + 3000 then Showing else Hiding)"
  proof
    fix e assume "e \<in> set (container u)"
    from staged_container [OF st this] obtain t where
      "(t, el_key e, Appeared (el_toast e)) \<in> set (history u)" "t \<le> clock u"
      "clock u < t + 4000" "el_class e = (if clock u < t + 3500 then Showing else Hiding)"
      by blast
    moreover have "t + 500 + 3000 + 500 = t + 4000" "t + 500 + 3000 = t + 3500" by simp_all
    ultimately show "\<exists>t. (t, el_key e, Appeared (el_toast e)) \<in> set (history u)
          \<and> t \<le> clock u \<and> clock u < t + 500 + 3000 + 500
          \<and> el_class e = (if clock u < t + 500 + 3000 then Showing else Hiding)"
      by metis
  qed
  have s3: "\<forall>a b evs'. \<not> isShowingToast u \<longrightarrow>
        (clock (run evs' (showToast a b u)) < clock u + 3500 \<longrightarrow>
            container (run evs' (showToast a b u))
              = [\<lparr>el_key = created u,
                   el_toast = \<lparr>toast_title = a, toast_description = b, toast_id = clock u\<rparr>,
                   el_class = Showing\<rparr>])
       \<and> (clock u + 3500 \<le> clock (run evs' (showToast a b u))
            \<and> clock (run evs' (showToast a b u)) < clock u + 4000 \<longrightarrow>
            container (run evs' (showToast a b u))
              = [\<lparr>el_key = created u,
                   el_toast = \<lparr>toast_title = a, toast_description = b, toast_id = clock u\<rparr>,
                   el_class = Hiding\<rparr>])
       \<and> (clock u + 4000 \<le> clock (run evs' (showToast a b u)) \<longrightarrow>
            (\<forall>e\<in>set (container (run evs' (showToast a b u))). el_key e \<noteq> created u))"
    unfolding u_def using shown_toast_lifetime by blast
  have a0: "\<forall>t k. (t, k, Completed) \<in> set (history u) \<longrightarrow>
       (\<exists>t0 x. t = t0 + 500 \<and> (t0, k, Appeared x) \<in> set (history u))"
    using t unfolding timed_def by blast
  have b0: "\<forall>t k x. (t, k, Appeared x) \<in> set (history u) \<and> t + 500 \<le> clock u \<longrightarrow>
       (t + 500, k, Completed) \<in> set (history u)"
  proof (intro allI impI)
    fix t' k x assume h: "(t', k, Appeared x) \<in> set (history u) \<and> t' + 500 \<le> clock u"
    with t have "(t' + 500, k, Completed) \<in> set (history u) \<or> pending u = [(t' + 500, OnComplete k)]"
      unfolding timed_def by blast
    moreover have "pending u \<noteq> [(t' + 500, OnComplete k)]"
      using phase_due [OF p, of "t' + 500" "OnComplete k"] h by auto
    ultimately show "(t' + 500, k, Completed) \<in> set (history u)" by blast
  qed
  have a: "\<forall>t k. (t, k, Dismissed) \<in> set (history u) \<longrightarrow>
       (\<exists>t0. t = t0 + 3000 \<and> (t0, k, Completed) \<in> set (history u))"
    using t unfolding timed_def by blast
  have b: "\<forall>t k. (t, k, Completed) \<in> set (history u) \<and> t + 3000 \<le> clock u \<longrightarrow>
       (t + 3000, k, Dismissed) \<in> set (history u)"
  proof (intro allI impI)
    fix t' k assume h: "(t', k, Completed) \<in> set (history u) \<and> t' + 3000 \<le> clock u"
    with t have "(t' + 3000, k, Dismissed) \<in> set (history u) \<or> pending u = [(t' + 3000, HideToast k)]"
      unfolding timed_def by blast
    moreover have "pending u \<noteq> [(t' + 3000, HideToast k)]"
      using phase_due [OF p, of "t' + 3000" "HideToast k"] h by auto
    ultimately show "(t' + 3000, k, Dismissed) \<in> set (history u)" by blast
  qed
  have c: "\<forall>t k. (t, k, Removed) \<in> set (history u) \<longrightarrow>
       (\<exists>t0. t = t0 + 500 \<and> (t0, k, Dismissed) \<in> set (history u))"
    using t unfolding timed_def by blast
  have d: "\<forall>t k. (t, k, Dismissed) \<in> set (history u) \<and> t + 500 \<le> clock u \<longrightarrow>
       (t + 500, k, Removed) \<in> set (history u)"
  proof (intro allI impI)
    fix t' k assume h: "(t', k, Dismissed) \<in> set (history u) \<and> t' + 500 \<le> clock u"
    with t have "(t' + 500, k, Removed) \<in> set (history u) \<or> pending u = [(t' + 500, RemoveToast k)]"
      unfolding timed_def by blast
    moreover have "pending u \<noteq> [(t' + 500, RemoveToast k)]"
      using phase_due [OF p, of "t' + 500" "RemoveToast k"] h by auto
    ultimately show "(t' + 500, k, Removed) \<in> set (history u)" by blast
  qed
  have e: "\<forall>k u x rest. toastQueue u = x # rest \<longrightarrow>
       fire (RemoveToast k) u =
         (u\<lparr>container := filter (\<lambda>e. el_key e \<noteq> k) (container u)
                @ [\<lparr>el_key = created u, el_toast = x, el_class = Showing\<rparr>],
            history := history u @ [(clock u, k, Removed), (clock u, created u, Appeared x)],
            isShowingToast := True, toastQueue := rest,
            pending := pending u @ [(clock u + 500, OnComplete (created u))],
            created := Suc (created u)\<rparr>)"
    by (simp add: processToastQueue_def chronicle_def arm_def Let_def)
  have f: "\<forall>t k x. (t, Suc k, Appeared x) \<in> set (history u) \<longrightarrow>
       (\<exists>t0 y. (t0, k, Appeared y) \<in> set (history u) \<and> t0 + 4000 \<le> t)"
    using t unfolding timed_def by blast
  show ?thesis
    unfolding u_def [symmetric]
    by (intro conjI) (fact s1 s2 s3 a0 b0 a b c d e f)+
qed

theorem toast_timing_witness:
  "(4000, Suc 0, Appeared \<lparr>toast_title = ''B'', toast_description = ''b'', toast_id = 0\<rparr>)
        \<in> set (history (run two_toasts ui_init))
   \<and> clock (run two_toasts ui_init) < 4000 + 500 + 3000
   \<and> container (run two_toasts ui_init)
       = [\<lparr>el_key = Suc 0,
           el_toast = \<lparr>toast_title = ''B'', toast_description = ''b'', toast_id = 0\<rparr>,
           el_class = Showing\<rparr>]"
proof -
  have h1: "(4000, Suc 0, Appeared \<lparr>toast_title = ''B'', toast_description = ''b'', toast_id = 0\<rparr>)
        \<in> set (history (run two_toasts ui_init))"
    by (simp add: two_toasts_run)
  have h2: "clock (run two_toasts ui_init) < 4000 + 500 + 3000"
    by (simp add: two_toasts_state)
  note c = toast_timing [of two_toasts, THEN conjunct1, rule_format, OF h1,
      THEN conjunct1, rule_format, OF h2]
  from h1 h2 c show ?thesis by (intro conjI)
qed

text \<open>
  A toast requested at time 0 is in the container with class \<open>showing\<close> at once. After
  3000 ms, and still after 3499 ms, it has that class; it has the class \<open>hiding\<close> at
  3500 ms. So the change from visible to dismissing does not come after 3000 ms.
\<close>

theorem toast_hides_at_3500_counterexample:
  "clock (run one_toast ui_init) = 0
   \<and> map el_class (container (run one_toast ui_init)) = [Showing]
   \<and> clock (run one_toast_3000 ui_init) = 3000
   \<and> map el_class (container (run one_toast_3000 ui_init)) = [Showing]
   \<and> clock (run one_toast_3499 ui_init) = 3499
   \<and> map el_class (container (run one_toast_3499 ui_init)) = [Showing]
   \<and> clock (run one_toast_3500 ui_init) = 3500
   \<and> map el_class (container (run one_toast_3500 ui_init)) = [Hiding]"
  by (simp add: one_toast_def one_toast_3000_def one_toast_3499_def one_toast_3500_def
        run_def showToast_def processToastQueue_def ticks_quiet tick_def
        arm_def chronicle_def ui_init_def Let_def)

end
